theory Spec2Isabelle
  imports Main
begin

section \<open>Values and errors shared by the cast receiver's services\<close>

text \<open>
  A thrown JavaScript \<^verbatim>\<open>Error\<close> is a value carrying its message. Every function
  of the source that can throw returns \<open>error + 'a\<close>, with \<open>Inl\<close> the exception.
\<close>

datatype error = Error string

text \<open>
  The values that reach the services as \<^verbatim>\<open>unknown\<close>: the message a sender posts
  over the Chromecast channel, and the payload obtained after pairing. Objects are
  association lists read with \<open>map_of\<close> (the first binding of a key is the property).
\<close>

datatype jsval =
    JUndefined
  | JNull
  | JBool bool
  | JNum int
  | JStr string
  | JObj "(string \<times> jsval) list"

text \<open>JavaScript's \<^verbatim>\<open>typeof\<close>.\<close>

fun typeof :: "jsval \<Rightarrow> string" where
  "typeof JUndefined = ''undefined''"
| "typeof JNull = ''object''"
| "typeof (JBool b) = ''boolean''"
| "typeof (JNum n) = ''number''"
| "typeof (JStr s) = ''string''"
| "typeof (JObj kvs) = ''object''"

text \<open>JavaScript's truthiness, which \<^verbatim>\<open>!v\<close>, \<^verbatim>\<open>v && w\<close> and \<^verbatim>\<open>if (v)\<close> test.\<close>

fun truthy :: "jsval \<Rightarrow> bool" where
  "truthy JUndefined = False"
| "truthy JNull = False"
| "truthy (JBool b) = b"
| "truthy (JNum n) = (n \<noteq> 0)"
| "truthy (JStr s) = (s \<noteq> [])"
| "truthy (JObj kvs) = True"

text \<open>Property access \<^verbatim>\<open>v[key]\<close> on a value that is not null or undefined.\<close>

fun getProp :: "jsval \<Rightarrow> string \<Rightarrow> jsval" where
  "getProp (JObj kvs) k = (case map_of kvs k of None \<Rightarrow> JUndefined | Some v \<Rightarrow> v)"
| "getProp v k = JUndefined"

text \<open>
  A variable of type \<^verbatim>\<open>string | undefined\<close> is a \<open>string option\<close>; it is truthy
  when it holds a non-empty string.
\<close>

fun truthy_str :: "string option \<Rightarrow> bool" where
  "truthy_str None = False"
| "truthy_str (Some s) = (s \<noteq> [])"

section \<open>Files of a collection\<close>

text \<open>
  Modelled from the spec: the enumeration \<^verbatim>\<open>FILE_TYPE\<close> is imported from
  \<^verbatim>\<open>@/media/file-type\<close>, which is not among the sources. The source names its
  members \<^verbatim>\<open>IMAGE\<close> and \<^verbatim>\<open>LIVE_PHOTO\<close>; the spec adds videos; \<open>OTHERS\<close> stands for
  every remaining value.
\<close>

datatype FILE_TYPE = IMAGE | VIDEO | LIVE_PHOTO | OTHERS

record Metadata =
  title :: string
  fileType :: FILE_TYPE
  creationTime :: int

text \<open>The decrypted public magic metadata, of which the source reads two fields.\<close>

record PubMagicData =
  editedTime :: "int option"
  editedName :: "string option"

text \<open>
  The properties an encrypted file and its decrypted form share (the
  \<^verbatim>\<open>restFileProps\<close> of \<open>decryptEnteFile\<close>), as far as the cast service reads
  them: \<open>fileID\<close> is \<^verbatim>\<open>id\<close>, \<open>fileSize\<close> is \<^verbatim>\<open>info.fileSize\<close> in bytes and
  \<open>fileDecryptionHeader\<close> is \<^verbatim>\<open>file.decryptionHeader\<close>.
\<close>

record FileProps =
  fileID :: nat
  fileSize :: int
  fileDecryptionHeader :: string
  isDeleted :: bool
  updationTime :: int

text \<open>
  \<^verbatim>\<open>EncryptedEnteFile\<close>. \<open>encryptedData\<close> and \<open>decryptionHeader\<close> are the two
  fields of its \<^verbatim>\<open>metadata\<close>. A magic metadata object, when the file has one, is
  the pair of its \<^verbatim>\<open>data\<close> and \<^verbatim>\<open>header\<close>; an absent \<^verbatim>\<open>data\<close> is the empty
  string, which is falsy like it.
\<close>

record EncryptedEnteFile = FileProps +
  encryptedKey :: string
  keyDecryptionNonce :: string
  encryptedData :: string
  decryptionHeader :: string
  encryptedMagicMetadata :: "(string \<times> string) option"
  encryptedPubMagicMetadata :: "(string \<times> string) option"

text \<open>\<^verbatim>\<open>EnteFile\<close>, the decrypted file.\<close>

record EnteFile = FileProps +
  key :: string
  metadata :: Metadata
  pubMagicMetadata :: "PubMagicData option"

definition isImageOrLivePhoto :: "EnteFile \<Rightarrow> bool" where
  "isImageOrLivePhoto file =
     (let fileType = fileType (metadata file)
      in fileType = IMAGE \<or> fileType = LIVE_PHOTO)"

text \<open>
  \<^verbatim>\<open>nameAndExtension\<close> and \<^verbatim>\<open>isNonWebImageFileExtension\<close> are imported from
  modules outside the sources; \<open>isFileEligibleForCast\<close> takes them as parameters.
  The first returns the pair of a name and an extension, the second decides whether
  an extension is one the browser cannot render.
\<close>

definition isFileEligibleForCast ::
  "(string \<Rightarrow> string \<times> 'x) \<Rightarrow> ('x \<Rightarrow> bool) \<Rightarrow> EnteFile \<Rightarrow> bool" where
  "isFileEligibleForCast nameAndExtension isNonWebImageFileExtension file =
     (if \<not> isImageOrLivePhoto file then False
      else if fileSize file > 100 * 1024 * 1024 then False
      else (let extension = snd (nameAndExtension (title (metadata file)))
            in if isNonWebImageFileExtension extension then False else True))"

section \<open>Fetching the files of the collection\<close>

text \<open>The body of a response of \<^verbatim>\<open>/cast/diff\<close>.\<close>

record DiffResponse =
  diff :: "EncryptedEnteFile list"
  hasMore :: bool

text \<open>
  The \<^verbatim>\<open>do ... while\<close> loop of \<open>getEncryptedCollectionFiles\<close>.
  \<open>httpGet castToken n sinceTime\<close> is how the \<open>n\<close>-th request (from 0) settles when
  it asks for the diff since \<open>sinceTime\<close> with the token in its header. The loop
  state is \<open>files\<close> and \<open>sinceTime\<close>; \<open>asked\<close> lists the \<open>sinceTime\<close> of every
  request made. \<open>None\<close> is a loop that never ends.
\<close>

partial_function (option) do_while ::
  "(string \<Rightarrow> nat \<Rightarrow> int \<Rightarrow> error + DiffResponse) \<Rightarrow> string \<Rightarrow> nat
     \<Rightarrow> EncryptedEnteFile list \<Rightarrow> int \<Rightarrow> int list
     \<Rightarrow> (int list \<times> (error + EncryptedEnteFile list)) option" where
  "do_while httpGet castToken n files sinceTime asked =
     (case httpGet castToken n sinceTime of
        Inl e \<Rightarrow> Some (asked @ [sinceTime], Inl e)
      | Inr resp \<Rightarrow>
          (let files' = files @ filter (\<lambda>file. \<not> isDeleted file) (diff resp);
               sinceTime' = foldl (\<lambda>mx file. max mx (updationTime file)) sinceTime (diff resp)
           in if hasMore resp
              then do_while httpGet castToken (Suc n) files' sinceTime' (asked @ [sinceTime])
              else Some (asked @ [sinceTime], Inr files')))"

text \<open>
  \<open>getEncryptedCollectionFiles\<close> returns the \<open>sinceTime\<close> of the requests it made
  and its result: the files, or the exception of a request.
\<close>

definition getEncryptedCollectionFiles ::
  "(string \<Rightarrow> nat \<Rightarrow> int \<Rightarrow> error + DiffResponse) \<Rightarrow> string
     \<Rightarrow> (int list \<times> (error + EncryptedEnteFile list)) option" where
  "getEncryptedCollectionFiles httpGet castToken = do_while httpGet castToken 0 [] 0 []"

text \<open>
  To state what the loop computes: the greatest \<open>updationTime\<close> among the files of
  some pages, and 0 when there is none; and the files of a page that are not
  deleted.
\<close>

definition watermark :: "DiffResponse list \<Rightarrow> int" where
  "watermark pages = Max (set (0 # map updationTime (concat (map diff pages))))"

definition live_files :: "DiffResponse \<Rightarrow> EncryptedEnteFile list" where
  "live_files page = filter (\<lambda>file. \<not> isDeleted file) (diff page)"

section \<open>The services of the slideshow\<close>

text \<open>
  What \<open>renderableImageURLs\<close> and the functions below it call outside the sources.
  Each function of the crypto worker, the network and the decoders may throw.
  \<^item> \<open>decryptB64\<close>, \<open>decryptMetadata\<close>, \<open>decryptFile\<close>: the crypto worker.
    \<^verbatim>\<open>worker.decryptMetadata\<close> is untyped; \<open>decryptMetadata\<close> is its use on the file's
    metadata and \<open>decryptMagicMetadata\<close> its use on a magic metadata.
  \<^item> \<open>nameAndExtension\<close>, \<open>isNonWebImageFileExtension\<close>: the helpers of the filter.
  \<^item> \<open>httpGetFile attempt token id\<close>: the body of the response to the request for
    the file's contents, \<open>None\<close> when it is \<^verbatim>\<open>undefined\<close>; \<open>attempt\<close> counts the
    downloads so far, so the network may answer differently each time.
  \<^item> \<open>decodeLivePhoto\<close>, \<open>detectMediaMIMEType\<close>: the decoders; the latter answers
    \<open>None\<close> (or the empty string) when it detects no type.
  \<^item> \<open>createObjectURL k\<close>: the URL the browser mints for the \<open>k\<close>-th object.
  \<^item> \<open>listing token cycle\<close>: how \<open>getEncryptedCollectionFiles\<close> settles in that
    cycle of the slideshow; \<open>shuffled cycle\<close>: the order \<^verbatim>\<open>shuffled\<close> picks then.
\<close>

record 'x StreamEnv =
  decryptB64 :: "string \<Rightarrow> string \<Rightarrow> string \<Rightarrow> error + string"
  decryptMetadata :: "string \<Rightarrow> string \<Rightarrow> string \<Rightarrow> error + Metadata"
  decryptMagicMetadata :: "string \<Rightarrow> string \<Rightarrow> string \<Rightarrow> error + PubMagicData"
  nameAndExtension :: "string \<Rightarrow> string \<times> 'x"
  isNonWebImageFileExtension :: "'x \<Rightarrow> bool"
  httpGetFile :: "nat \<Rightarrow> string \<Rightarrow> nat \<Rightarrow> error + string option"
  decryptFile :: "string \<Rightarrow> string \<Rightarrow> string \<Rightarrow> error + string"
  decodeLivePhoto :: "string \<Rightarrow> string \<Rightarrow> error + string"
  detectMediaMIMEType :: "string \<Rightarrow> string \<Rightarrow> error + string option"
  createObjectURL :: "nat \<Rightarrow> string"
  listing :: "string \<Rightarrow> nat \<Rightarrow> error + EncryptedEnteFile list"
  shuffled :: "nat \<Rightarrow> EncryptedEnteFile list \<Rightarrow> EncryptedEnteFile list"

section \<open>Decrypting a file\<close>

text \<open>
  The decryption of a magic metadata in \<open>decryptEnteFile\<close>: done only when the
  object is there and its \<^verbatim>\<open>data\<close> is truthy.
\<close>

definition decryptMagic ::
  "'x StreamEnv \<Rightarrow> (string \<times> string) option \<Rightarrow> string \<Rightarrow> error + PubMagicData option" where
  "decryptMagic env magic fileKey =
     (case magic of
        None \<Rightarrow> Inr None
      | Some (data, header) \<Rightarrow>
          if data = [] then Inr None
          else (case decryptMagicMetadata env data header fileKey of
                  Inl e \<Rightarrow> Inl e
                | Inr d \<Rightarrow> Inr (Some d)))"

text \<open>The edited time and the edited name, when truthy, replace the original ones.\<close>

definition applyEdits :: "EnteFile \<Rightarrow> EnteFile" where
  "applyEdits file =
     (let file1 =
            (case pubMagicMetadata file of
               None \<Rightarrow> file
             | Some d \<Rightarrow>
                 (case editedTime d of
                    None \<Rightarrow> file
                  | Some t \<Rightarrow>
                      if t = 0 then file
                      else file\<lparr>metadata := (metadata file)\<lparr>creationTime := t\<rparr>\<rparr>))
      in case pubMagicMetadata file1 of
           None \<Rightarrow> file1
         | Some d \<Rightarrow>
             (case editedName d of
                None \<Rightarrow> file1
              | Some name \<Rightarrow>
                  if name = [] then file1
                  else file1\<lparr>metadata := (metadata file1)\<lparr>title := name\<rparr>\<rparr>))"

definition decryptEnteFile ::
  "'x StreamEnv \<Rightarrow> EncryptedEnteFile \<Rightarrow> string \<Rightarrow> error + EnteFile" where
  "decryptEnteFile env encryptedFile collectionKey =
     (case decryptB64 env (encryptedKey encryptedFile) (keyDecryptionNonce encryptedFile)
             collectionKey of
        Inl e \<Rightarrow> Inl e
      | Inr fileKey \<Rightarrow>
     (case decryptMetadata env (encryptedData encryptedFile) (decryptionHeader encryptedFile)
             fileKey of
        Inl e \<Rightarrow> Inl e
      | Inr fileMetadata \<Rightarrow>
     (case decryptMagic env (encryptedMagicMetadata encryptedFile) fileKey of
        Inl e \<Rightarrow> Inl e
      | Inr fileMagicMetadata \<Rightarrow>
     (case decryptMagic env (encryptedPubMagicMetadata encryptedFile) fileKey of
        Inl e \<Rightarrow> Inl e
      | Inr filePubMagicMetadata \<Rightarrow>
          Inr (applyEdits
                 \<lparr>fileID = fileID encryptedFile, fileSize = fileSize encryptedFile,
                  fileDecryptionHeader = fileDecryptionHeader encryptedFile,
                  isDeleted = isDeleted encryptedFile,
                  updationTime = updationTime encryptedFile,
                  key = fileKey, metadata = fileMetadata,
                  pubMagicMetadata = filePubMagicMetadata\<rparr>)))))"

section \<open>Making a file renderable\<close>

definition downloadFile ::
  "'x StreamEnv \<Rightarrow> string \<Rightarrow> EnteFile \<Rightarrow> nat \<Rightarrow> error + string" where
  "downloadFile env castToken file attempt =
     (if \<not> isImageOrLivePhoto file
      then Inl (Error ''Can only cast images and live photos'')
      else (case httpGetFile env attempt castToken (fileID file) of
              Inl e \<Rightarrow> Inl e
            | Inr None \<Rightarrow> Inl (Error ''Failed to get file'')
            | Inr (Some data) \<Rightarrow>
                decryptFile env data (fileDecryptionHeader file) (key file)))"

text \<open>The blob and its MIME type.\<close>

definition renderableImageBlob ::
  "'x StreamEnv \<Rightarrow> string \<Rightarrow> EnteFile \<Rightarrow> nat \<Rightarrow> error + string \<times> string" where
  "renderableImageBlob env castToken file attempt =
     (let fileName = title (metadata file)
      in case downloadFile env castToken file attempt of
           Inl e \<Rightarrow> Inl e
         | Inr blob \<Rightarrow>
             (case (if fileType (metadata file) = LIVE_PHOTO
                    then decodeLivePhoto env fileName blob else Inr blob) of
                Inl e \<Rightarrow> Inl e
              | Inr blob' \<Rightarrow>
                  (case detectMediaMIMEType env fileName blob' of
                     Inl e \<Rightarrow> Inl e
                   | Inr None \<Rightarrow> Inl (Error ''Could not detect MIME type for file'')
                   | Inr (Some mimeType) \<Rightarrow>
                       if mimeType = []
                       then Inl (Error ''Could not detect MIME type for file'')
                       else Inr (blob', mimeType))))"

section \<open>The state of the slideshow\<close>

text \<open>
  The variables of \<open>renderableImageURLs\<close> (\<open>previousURLs\<close>, \<open>urls\<close>,
  \<open>haveEligibleFiles\<close>) and what it did to the outside world: the listings fetched
  (\<open>cycles\<close>), the downloads attempted (\<open>attempts\<close>), the object URLs created
  (\<open>created\<close>) and the URLs passed to \<^verbatim>\<open>URL.revokeObjectURL\<close>, in order
  (\<open>revoked\<close>). The pacing of the slides (\<open>lastYieldTime\<close> and the wait before a
  yield) delays the yields and changes nothing else; it is left out.
\<close>

record Slideshow =
  previousURLs :: "string list"
  urls :: "string list"
  haveEligibleFiles :: bool
  cycles :: nat
  attempts :: nat
  created :: nat
  revoked :: "string list"

definition createRenderableURL ::
  "'x StreamEnv \<Rightarrow> string \<Rightarrow> EnteFile \<Rightarrow> Slideshow \<Rightarrow> (error + string) \<times> Slideshow" where
  "createRenderableURL env castToken file st =
     (case renderableImageBlob env castToken file (attempts st) of
        Inl e \<Rightarrow> (Inl e, st\<lparr>attempts := Suc (attempts st)\<rparr>)
      | Inr blob \<Rightarrow>
          (Inr (createObjectURL env (created st)),
           st\<lparr>attempts := Suc (attempts st), created := Suc (created st)\<rparr>))"

definition revokeObjectURL :: "string \<Rightarrow> Slideshow \<Rightarrow> Slideshow" where
  "revokeObjectURL url st = st\<lparr>revoked := revoked st @ [url]\<rparr>"

section \<open>The local store\<close>

text \<open>
  \<^verbatim>\<open>window.localStorage\<close>: string keys to string values; \<^verbatim>\<open>getItem\<close> of an absent
  key is \<^verbatim>\<open>null\<close>, here \<open>None\<close>.
\<close>

type_synonym localStorage = "string \<rightharpoonup> string"

text \<open>
  \<^verbatim>\<open>setItem\<close> stores the string conversion of its argument. \<open>JNum\<close> holds the
  integers JavaScript prints in plain decimal notation.
\<close>

fun digits :: "nat \<Rightarrow> string" where
  "digits n =
     (if n < 10 then [char_of (48 + n)]
      else digits (n div 10) @ [char_of (48 + n mod 10)])"

fun ToString :: "jsval \<Rightarrow> string" where
  "ToString JUndefined = ''undefined''"
| "ToString JNull = ''null''"
| "ToString (JBool b) = (if b then ''true'' else ''false'')"
| "ToString (JNum n) = (if n < 0 then CHR ''-'' # digits (nat (- n)) else digits (nat n))"
| "ToString (JStr s) = s"
| "ToString (JObj kvs) = ''[object Object]''"

text \<open>The keys a \<^verbatim>\<open>for (const key in payload)\<close> loop visits, each once.\<close>

fun keys_in :: "jsval \<Rightarrow> string list" where
  "keys_in (JObj kvs) = remdups (map fst kvs)"
| "keys_in v = []"

definition storeCastData :: "jsval \<Rightarrow> localStorage \<Rightarrow> error + localStorage" where
  "storeCastData payload ls =
     (if \<not> truthy payload \<or> typeof payload \<noteq> ''object''
      then Inl (Error ''Unexpected cast data'')
      else Inr (fold (\<lambda>key s. s(key \<mapsto> ToString (getProp payload key)))
                     (keys_in payload) ls))"

record CastData =
  collectionKey :: string
  castToken :: string

text \<open>
  Modelled from the spec: \<^verbatim>\<open>ensureString\<close> is imported from \<^verbatim>\<open>@/utils/ensure\<close>,
  which is not among the sources. It returns its argument when that is a string and
  throws otherwise; \<open>readCastData\<close> documents that it throws when the expected data
  is not in the store.
\<close>

definition ensureString :: "string option \<Rightarrow> error + string" where
  "ensureString v =
     (case v of None \<Rightarrow> Inl (Error ''Expected a string'') | Some s \<Rightarrow> Inr s)"

definition readCastData :: "localStorage \<Rightarrow> error + CastData" where
  "readCastData ls =
     (case ensureString (ls ''collectionKey'') of
        Inl e \<Rightarrow> Inl e
      | Inr ck \<Rightarrow>
          (case ensureString (ls ''castToken'') of
             Inl e \<Rightarrow> Inl e
           | Inr ct \<Rightarrow> Inr \<lparr>collectionKey = ck, castToken = ct\<rparr>))"

text \<open>One mebibyte, to state sizes the way the specification does.\<close>

definition MiB :: int where
  "MiB = 1024 * 1024"

section \<open>Advertising the pairing code\<close>

text \<open>
  The state \<open>advertiseCode\<close> closes over: the variable \<open>pairedCollectionID\<close>, and
  what it did to the Chromecast context: whether \<^verbatim>\<open>context.stop()\<close> was called, and
  the custom messages sent, each with its namespace, recipient and pairing code.
\<close>

record Advertiser =
  pairedCollectionID :: "string option"
  stopped :: bool
  sent :: "(string \<times> string \<times> string) list"

definition namespace :: string where
  "namespace = ''urn:x-cast:pair-request''"

definition restart :: "Advertiser \<Rightarrow> Advertiser" where
  "restart st = st\<lparr>stopped := True\<rparr>"

definition sendCustomMessage :: "string \<Rightarrow> string \<Rightarrow> string \<Rightarrow> Advertiser \<Rightarrow> Advertiser" where
  "sendCustomMessage ns senderId code st = st\<lparr>sent := sent st @ [(ns, senderId, code)]\<rparr>"

text \<open>The \<open>collectionID\<close> the listener reads off the message, if it carries one.\<close>

definition collectionID_of :: "jsval \<Rightarrow> string option" where
  "collectionID_of data =
     (if truthy data \<and> typeof data = ''object''
         \<and> typeof (getProp data ''collectionID'') = ''string''
      then (case getProp data ''collectionID'' of JStr s \<Rightarrow> Some s | _ \<Rightarrow> None)
      else None)"

text \<open>
  The listener. \<open>pairingCode\<close> is the callback given to \<open>advertiseCode\<close>; it is
  called once per request, after the binding check. The comparison \<^verbatim>\<open>!=\<close> of two
  values that are each a string or undefined is inequality of the options.
\<close>

definition incomingMessageListener ::
  "(unit \<Rightarrow> string option) \<Rightarrow> string \<Rightarrow> jsval \<Rightarrow> Advertiser \<Rightarrow> Advertiser" where
  "incomingMessageListener pairingCode senderId data st =
     (let collectionID = collectionID_of data
      in if truthy_str (pairedCollectionID st) \<and> pairedCollectionID st \<noteq> collectionID
         then restart st
         else (let st1 = st\<lparr>pairedCollectionID := collectionID\<rparr>;
                   code = pairingCode ()
               in case code of
                    None \<Rightarrow> restart st1
                  | Some c \<Rightarrow>
                      if c = [] then restart st1
                      else sendCustomMessage namespace senderId c st1))"

text \<open>
  A session: the listener handles the requests one after the other. A request is the
  callback as it answers at that moment, the sender and the message.
\<close>

fun advertise ::
  "Advertiser \<Rightarrow> ((unit \<Rightarrow> string option) \<times> string \<times> jsval) list \<Rightarrow> Advertiser" where
  "advertise st [] = st"
| "advertise st ((pairingCode, senderId, data) # reqs) =
     advertise (incomingMessageListener pairingCode senderId data st) reqs"

definition advertiseCode_start :: Advertiser where
  "advertiseCode_start = \<lparr>pairedCollectionID = None, stopped = False, sent = []\<rparr>"

text \<open>The callback that answers \<open>code\<close> whenever it is called.\<close>

definition codeProvider :: "string option \<Rightarrow> unit \<Rightarrow> string option" where
  "codeProvider code u = code"

section \<open>Registering and polling for the cast data\<close>

text \<open>
  What \<open>register\<close> does to the outside world, in order: a call of
  \<^verbatim>\<open>castGateway.registerDevice\<close> with the public key, or a \<^verbatim>\<open>wait\<close> of so many
  milliseconds. Each is awaited before the next begins.
\<close>

datatype register_event = RegisterDevice string | Wait nat

text \<open>
  The loop of \<open>register\<close>. \<open>registerDevice n key\<close> is how the \<open>n\<close>-th call (from 0)
  of \<^verbatim>\<open>castGateway.registerDevice\<close> settles: \<open>Inl\<close> when it throws, \<open>Inr\<close> with the
  pairing code otherwise. The variable \<open>pairingCode\<close> starts undefined and keeps its
  value when the call throws. The loop has no bound: \<open>None\<close> is a loop that never
  ends.
\<close>

partial_function (option) register_loop ::
  "(nat \<Rightarrow> string \<Rightarrow> error + string) \<Rightarrow> string \<Rightarrow> nat \<Rightarrow> string option
     \<Rightarrow> register_event list \<Rightarrow> (string \<times> register_event list) option" where
  "register_loop registerDevice publicKeyB64 n pairingCode events =
     (let pairingCode' = (case registerDevice n publicKeyB64 of
                            Inl e \<Rightarrow> pairingCode
                          | Inr code \<Rightarrow> Some code);
          events' = events @ [RegisterDevice publicKeyB64]
      in case pairingCode' of
           None \<Rightarrow> register_loop registerDevice publicKeyB64 (Suc n) pairingCode'
                     (events' @ [Wait 10000])
         | Some code \<Rightarrow>
             if code \<noteq> [] then Some (code, events')
             else register_loop registerDevice publicKeyB64 (Suc n) pairingCode'
                    (events' @ [Wait 10000]))"

record Registration =
  pairingCode :: string
  publicKeyB64 :: string
  privateKeyB64 :: string

text \<open>
  \<open>register\<close>, given the keypair that \<^verbatim>\<open>generateKeyPair\<close> produced, both halves
  already in base 64. It returns the registration and the events that led to it.
\<close>

definition register ::
  "string \<Rightarrow> string \<Rightarrow> (nat \<Rightarrow> string \<Rightarrow> error + string)
     \<Rightarrow> (Registration \<times> register_event list) option" where
  "register publicKey privateKey registerDevice =
     (case register_loop registerDevice publicKey 0 None [] of
        None \<Rightarrow> None
      | Some (code, events) \<Rightarrow>
          Some (\<lparr>pairingCode = code, publicKeyB64 = publicKey, privateKeyB64 = privateKey\<rparr>,
                events))"

text \<open>An attempt succeeds when the call returns a pairing code that is not empty.\<close>

definition attempt_succeeds :: "(nat \<Rightarrow> string \<Rightarrow> error + string) \<Rightarrow> string \<Rightarrow> nat \<Rightarrow> bool" where
  "attempt_succeeds registerDevice publicKey n =
     (case registerDevice n publicKey of Inl e \<Rightarrow> False | Inr code \<Rightarrow> code \<noteq> [])"

text \<open>
  The services \<open>getCastData\<close> calls: the gateway's \<^verbatim>\<open>getCastData\<close>, which answers
  with the encrypted payload if there is one; \<^verbatim>\<open>boxSealOpen\<close>; \<^verbatim>\<open>atob\<close>; and
  \<^verbatim>\<open>JSON.parse\<close>. Each may throw.
\<close>

record PairingServices =
  gateway_getCastData :: "string \<Rightarrow> error + string option"
  boxSealOpen :: "string \<Rightarrow> string \<Rightarrow> string \<Rightarrow> error + string"
  atob :: "string \<Rightarrow> error + string"
  JSON_parse :: "string \<Rightarrow> error + jsval"

text \<open>The calls \<open>getCastData\<close> makes to the gateway and to the decryption.\<close>

datatype poll_call = GatewayGetCastData string | BoxSealOpen string string string

text \<open>
  \<open>getCastData\<close> returns the calls it made and its result: \<open>Inl\<close> an exception,
  \<open>Inr None\<close> the value \<^verbatim>\<open>undefined\<close>, \<open>Inr (Some v)\<close> the parsed payload.
\<close>

definition getCastData ::
  "PairingServices \<Rightarrow> Registration \<Rightarrow> poll_call list \<times> (error + jsval option)" where
  "getCastData services registration =
     (case gateway_getCastData services (pairingCode registration) of
        Inl e \<Rightarrow> ([GatewayGetCastData (pairingCode registration)], Inl e)
      | Inr None \<Rightarrow> ([GatewayGetCastData (pairingCode registration)], Inr None)
      | Inr (Some encryptedCastData) \<Rightarrow>
          if encryptedCastData = []
          then ([GatewayGetCastData (pairingCode registration)], Inr None)
          else (GatewayGetCastData (pairingCode registration)
                  # [BoxSealOpen encryptedCastData (publicKeyB64 registration)
                       (privateKeyB64 registration)],
                case boxSealOpen services encryptedCastData (publicKeyB64 registration)
                       (privateKeyB64 registration) of
                  Inl e \<Rightarrow> Inl e
                | Inr decryptedCastData \<Rightarrow>
                    (case atob services decryptedCastData of
                       Inl e \<Rightarrow> Inl e
                     | Inr text \<Rightarrow>
                         (case JSON_parse services text of
                            Inl e \<Rightarrow> Inl e
                          | Inr v \<Rightarrow> Inr (Some v)))))"

text \<open>Reading a trace of \<open>register\<close>: the calls made, and the time spent waiting.\<close>

fun calls_made :: "register_event list \<Rightarrow> nat" where
  "calls_made [] = 0"
| "calls_made (RegisterDevice k # es) = Suc (calls_made es)"
| "calls_made (Wait ms # es) = calls_made es"

fun time_waited :: "register_event list \<Rightarrow> nat" where
  "time_waited [] = 0"
| "time_waited (RegisterDevice k # es) = time_waited es"
| "time_waited (Wait ms # es) = ms + time_waited es"

text \<open>
  A gateway for the examples: its first call throws, its second returns an empty
  code, and from the third on it returns the pairing code \<open>ABC123\<close>.
\<close>

definition flaky_registerDevice :: "nat \<Rightarrow> string \<Rightarrow> error + string" where
  "flaky_registerDevice n publicKey =
     (if n = 0 then Inl (Error ''Network Error'')
      else if n = 1 then Inr []
      else Inr ''ABC123'')"

text \<open>
  Services for the examples: the gateway holds a payload for the pairing code
  \<open>ABC123\<close> only; decryption succeeds with the private key \<open>priv\<close> only; \<open>atob\<close>
  is the identity; parsing accepts the one text \<open>{}\<close>.
\<close>

definition example_services :: PairingServices where
  "example_services =
     \<lparr>gateway_getCastData = (\<lambda>code. Inr (if code = ''ABC123'' then Some ''sealed'' else None)),
      boxSealOpen = (\<lambda>enc pub priv.
         if priv = ''priv'' then Inr ''{}'' else Inl (Error ''incorrect key pair'')),
      atob = (\<lambda>s. Inr s),
      JSON_parse = (\<lambda>s. if s = ''{}'' then Inr (JObj []) else Inl (Error ''SyntaxError''))\<rparr>"

text \<open>
  A collection for the examples: an encrypted file with a given id, time of last
  update and deletion mark, whose encrypted metadata is \<open>m\<close>; and a server that
  holds four files, one of them deleted, and answers with pages of two.
\<close>

definition example_file :: "nat \<Rightarrow> int \<Rightarrow> bool \<Rightarrow> string \<Rightarrow> EncryptedEnteFile" where
  "example_file i t deleted m =
     \<lparr>fileID = i, fileSize = 1000, fileDecryptionHeader = ''header'',
      isDeleted = deleted, updationTime = t,
      encryptedKey = ''key'', keyDecryptionNonce = ''nonce'',
      encryptedData = m, decryptionHeader = ''header'',
      encryptedMagicMetadata = None, encryptedPubMagicMetadata = None\<rparr>"

definition example_collection :: "EncryptedEnteFile list" where
  "example_collection =
     [example_file 11 3 False ''image'', example_file 12 5 False ''image'',
      example_file 13 6 True ''image'', example_file 14 7 False ''image'']"

definition example_httpGet :: "string \<Rightarrow> nat \<Rightarrow> int \<Rightarrow> error + DiffResponse" where
  "example_httpGet token n sinceTime =
     (let newer = filter (\<lambda>file. sinceTime < updationTime file) example_collection
      in Inr \<lparr>diff = take 2 newer, hasMore = (2 < length newer)\<rparr>)"

text \<open>A server that always reports more.\<close>

definition endless_httpGet :: "string \<Rightarrow> nat \<Rightarrow> int \<Rightarrow> error + DiffResponse" where
  "endless_httpGet token n sinceTime = Inr \<lparr>diff = [], hasMore = True\<rparr>"

section \<open>The slideshow generator\<close>

text \<open>
  How a stretch of the generator's body ends: at the \<^verbatim>\<open>yield\<close>, with the pair
  yielded, the state and the files the \<^verbatim>\<open>for\<close> loop has yet to visit; with an
  exception; at the end of the \<^verbatim>\<open>for\<close> loop; or at the \<^verbatim>\<open>return\<close>.
\<close>

datatype outcome =
    Yielded "string \<times> string" Slideshow "EncryptedEnteFile list"
  | Threw error Slideshow
  | Exhausted Slideshow
  | Returned Slideshow

text \<open>
  The end of an iteration of the \<^verbatim>\<open>for\<close> loop, from the revocation of the oldest
  URL to the \<^verbatim>\<open>yield\<close>. \<^verbatim>\<open>ensure\<close> throws when \<open>urls\<close> is empty.
\<close>

definition emit :: "Slideshow \<Rightarrow> EncryptedEnteFile list \<Rightarrow> outcome" where
  "emit st rest =
     (let st1 = (case previousURLs st of
                   oldest # shown # others \<Rightarrow>
                     revokeObjectURL oldest (st\<lparr>previousURLs := shown # others\<rparr>)
                 | _ \<Rightarrow> st)
      in case urls st1 of
           [] \<Rightarrow> Threw (Error ''Required value was not found'') st1
         | url # remaining \<Rightarrow>
             (let nextURL = [];
                  st2 = st1\<lparr>urls := remaining, previousURLs := previousURLs st1 @ [url]\<rparr>
              in Yielded (url, nextURL) st2 rest))"

text \<open>
  The \<^verbatim>\<open>for\<close> loop over the files not yet visited. \<open>decryptEnteFile\<close> is called
  outside the \<^verbatim>\<open>try\<close>: its exception leaves the generator. \<open>createRenderableURL\<close>
  is called inside: its exception is logged and the loop continues.
\<close>

fun for_loop ::
  "'x StreamEnv \<Rightarrow> CastData \<Rightarrow> Slideshow \<Rightarrow> EncryptedEnteFile list \<Rightarrow> outcome" where
  "for_loop env castData st [] = Exhausted st"
| "for_loop env castData st (encryptedFile # rest) =
     (case decryptEnteFile env encryptedFile (collectionKey castData) of
        Inl e \<Rightarrow> Threw e st
      | Inr file \<Rightarrow>
          if \<not> isFileEligibleForCast (nameAndExtension env) (isNonWebImageFileExtension env) file
          then for_loop env castData st rest
          else (case createRenderableURL env (castToken castData) file st of
                  (Inl e, st1) \<Rightarrow> for_loop env castData st1 rest
                | (Inr url, st1) \<Rightarrow>
                    emit (st1\<lparr>urls := urls st1 @ [url], haveEligibleFiles := True\<rparr>) rest))"

lemma emit_not_Exhausted: "emit st rest \<noteq> Exhausted st'"
  by (simp add: emit_def Let_def split: list.splits)

lemma for_loop_Exhausted:
  "for_loop env castData st files = Exhausted st' \<Longrightarrow>
   haveEligibleFiles st' = haveEligibleFiles st"
proof (induction files arbitrary: st)
  case Nil
  then show ?case by simp
next
  case (Cons encryptedFile rest)
  show ?case
  proof (cases "decryptEnteFile env encryptedFile (collectionKey castData)")
    case (Inl e)
    with Cons.prems show ?thesis by simp
  next
    case (Inr decrypted)
    show ?thesis
    proof (cases "isFileEligibleForCast (nameAndExtension env) (isNonWebImageFileExtension env) decrypted")
      case False
      with Cons Inr show ?thesis by simp
    next
      case True
      obtain r st1 where c: "createRenderableURL env (castToken castData) decrypted st = (r, st1)"
        by (cases "createRenderableURL env (castToken castData) decrypted st")
      show ?thesis
      proof (cases r)
        case (Inl e)
        with Cons.prems Inr True c have "for_loop env castData st1 rest = Exhausted st'" by simp
        then have "haveEligibleFiles st' = haveEligibleFiles st1" by (rule Cons.IH)
        moreover from c Inl have "haveEligibleFiles st1 = haveEligibleFiles st"
          by (auto simp: createRenderableURL_def split: sum.splits)
        ultimately show ?thesis by simp
      next
        case (Inr url)
        with Cons.prems \<open>decryptEnteFile env encryptedFile (collectionKey castData) = Inr decrypted\<close>
          True c show ?thesis by (simp add: emit_not_Exhausted)
      qed
    qed
  qed
qed

text \<open>
  The \<^verbatim>\<open>while (true)\<close> loop, from the top of its body. It goes round again only
  when the \<^verbatim>\<open>for\<close> loop ends with \<open>haveEligibleFiles\<close> set.
\<close>

function while_true :: "'x StreamEnv \<Rightarrow> CastData \<Rightarrow> Slideshow \<Rightarrow> outcome" where
  "while_true env castData st =
     (case listing env (castToken castData) (cycles st) of
        Inl e \<Rightarrow> Threw e (st\<lparr>cycles := Suc (cycles st)\<rparr>)
      | Inr files \<Rightarrow>
          (case for_loop env castData
                  (st\<lparr>cycles := Suc (cycles st), haveEligibleFiles := False\<rparr>)
                  (shuffled env (cycles st) files) of
             Exhausted st' \<Rightarrow>
               if \<not> haveEligibleFiles st' then Returned st' else while_true env castData st'
           | Yielded urlPair st' rest \<Rightarrow> Yielded urlPair st' rest
           | Threw e st' \<Rightarrow> Threw e st'
           | Returned st' \<Rightarrow> Returned st'))"
  by pat_completeness auto
termination
proof (relation "{}")
  show "wf {}" by simp
next
  fix env :: "'x StreamEnv" and castData st files st'
  assume "for_loop env castData (st\<lparr>cycles := Suc (cycles st), haveEligibleFiles := False\<rparr>)
            (shuffled env (cycles st) files) = Exhausted st'"
    and "\<not> \<not> haveEligibleFiles st'"
  then show "((env, castData, st'), (env, castData, st)) \<in> {}"
    using for_loop_Exhausted by fastforce
qed

declare while_true.simps [simp del]

text \<open>
  Resuming after a \<^verbatim>\<open>yield\<close>: the rest of the \<^verbatim>\<open>for\<close> loop, the test after it, and
  the \<^verbatim>\<open>while\<close> loop from the top.
\<close>

definition resume ::
  "'x StreamEnv \<Rightarrow> CastData \<Rightarrow> Slideshow \<Rightarrow> EncryptedEnteFile list \<Rightarrow> outcome" where
  "resume env castData st rest =
     (case for_loop env castData st rest of
        Exhausted st' \<Rightarrow>
          if \<not> haveEligibleFiles st' then Returned st' else while_true env castData st'
      | Yielded urlPair st' rest' \<Rightarrow> Yielded urlPair st' rest'
      | Threw e st' \<Rightarrow> Threw e st'
      | Returned st' \<Rightarrow> Returned st')"

text \<open>
  The generator object: not yet started, suspended at a \<^verbatim>\<open>yield\<close>, or completed
  (it returned or threw). A call of \<^verbatim>\<open>next()\<close> resolves to a value, resolves to
  done, or rejects.
\<close>

datatype generator =
    SuspendedStart
  | SuspendedYield Slideshow "EncryptedEnteFile list"
  | Completed Slideshow

datatype iterator_result = Value "string \<times> string" | Done | Rejected error

definition initial :: Slideshow where
  "initial = \<lparr>previousURLs = [], urls = [], haveEligibleFiles = False,
              cycles = 0, attempts = 0, created = 0, revoked = []\<rparr>"

fun settle :: "outcome \<Rightarrow> iterator_result \<times> generator" where
  "settle (Yielded urlPair st rest) = (Value urlPair, SuspendedYield st rest)"
| "settle (Threw e st) = (Rejected e, Completed st)"
| "settle (Exhausted st) = (Done, Completed st)"
| "settle (Returned st) = (Done, Completed st)"

fun renderableImageURLs_next ::
  "'x StreamEnv \<Rightarrow> CastData \<Rightarrow> generator \<Rightarrow> iterator_result \<times> generator" where
  "renderableImageURLs_next env castData SuspendedStart = settle (while_true env castData initial)"
| "renderableImageURLs_next env castData (SuspendedYield st rest) =
     settle (resume env castData st rest)"
| "renderableImageURLs_next env castData (Completed st) = (Done, Completed st)"

text \<open>The generator after \<open>n\<close> calls of \<^verbatim>\<open>next()\<close>, and what call \<open>n\<close> (from 0) gave.\<close>

fun after_calls :: "'x StreamEnv \<Rightarrow> CastData \<Rightarrow> nat \<Rightarrow> generator" where
  "after_calls env castData 0 = SuspendedStart"
| "after_calls env castData (Suc n) =
     snd (renderableImageURLs_next env castData (after_calls env castData n))"

definition nth_result :: "'x StreamEnv \<Rightarrow> CastData \<Rightarrow> nat \<Rightarrow> iterator_result" where
  "nth_result env castData n =
     fst (renderableImageURLs_next env castData (after_calls env castData n))"

section \<open>A slideshow for the examples\<close>

text \<open>
  Services for the examples, for a given way \<open>getEncryptedCollectionFiles\<close> settles
  in each cycle. The file key \<open>bad\<close> does not decrypt. The metadata decrypts to a
  title equal to the encrypted text, and to a video when that is \<open>clip.mp4\<close>. The
  extension is the last four characters of the title. The contents of file 13 cannot
  be fetched. The \<open>k\<close>-th object URL is \<open>blob:\<close> followed by \<open>k\<close> letters. The files
  are never reordered.
\<close>

definition example_env ::
  "(string \<Rightarrow> nat \<Rightarrow> error + EncryptedEnteFile list) \<Rightarrow> string StreamEnv" where
  "example_env files_of_cycle =
     \<lparr>decryptB64 = (\<lambda>encrypted nonce k.
         if encrypted = ''bad'' then Inl (Error ''decryption failed'') else Inr encrypted),
      decryptMetadata = (\<lambda>encrypted header k.
         Inr \<lparr>title = encrypted,
              fileType = (if encrypted = ''clip.mp4'' then VIDEO else IMAGE),
              creationTime = 0\<rparr>),
      decryptMagicMetadata = (\<lambda>encrypted header k.
         Inr \<lparr>editedTime = None, editedName = None\<rparr>),
      nameAndExtension = (\<lambda>t. (t, drop (length t - 4) t)),
      isNonWebImageFileExtension = (\<lambda>x. x = ''heic''),
      httpGetFile = (\<lambda>attempt token i.
         if i = 13 then Inl (Error ''Network Error'') else Inr (Some ''bytes'')),
      decryptFile = (\<lambda>encrypted header k. Inr encrypted),
      decodeLivePhoto = (\<lambda>name blob. Inr blob),
      detectMediaMIMEType = (\<lambda>name blob. Inr (Some ''image/jpeg'')),
      createObjectURL = (\<lambda>k. ''blob:'' @ replicate k (CHR ''x'')),
      listing = files_of_cycle,
      shuffled = (\<lambda>cycle files. files)\<rparr>"

text \<open>
  Four collections. The first holds two images, a video and an image that cannot be
  fetched during its first two cycles, and only the latter two from then on. The
  second never holds anything to show. The third holds an image, a file whose key
  does not decrypt and another image. The fourth holds a video and a file whose key
  does not decrypt.
\<close>

definition changing_listing :: "string \<Rightarrow> nat \<Rightarrow> error + EncryptedEnteFile list" where
  "changing_listing token cycle =
     (if cycle < 2
      then Inr [example_file 11 3 False ''a.jpg'', example_file 14 7 False ''d.jpg'',
                example_file 12 5 False ''clip.mp4'', example_file 13 6 False ''c.jpg'']
      else Inr [example_file 12 5 False ''clip.mp4'', example_file 13 6 False ''c.jpg''])"

definition barren_listing :: "string \<Rightarrow> nat \<Rightarrow> error + EncryptedEnteFile list" where
  "barren_listing token cycle =
     Inr [example_file 12 5 False ''clip.mp4'', example_file 13 6 False ''c.jpg'']"

definition undecryptable_listing :: "string \<Rightarrow> nat \<Rightarrow> error + EncryptedEnteFile list" where
  "undecryptable_listing token cycle =
     Inr [example_file 11 3 False ''a.jpg'',
          (example_file 15 8 False ''e.jpg'')\<lparr>encryptedKey := ''bad''\<rparr>,
          example_file 14 7 False ''d.jpg'']"

definition unrenderable_listing :: "string \<Rightarrow> nat \<Rightarrow> error + EncryptedEnteFile list" where
  "unrenderable_listing token cycle =
     Inr [example_file 12 5 False ''clip.mp4'',
          (example_file 15 8 False ''e.jpg'')\<lparr>encryptedKey := ''bad''\<rparr>]"

text \<open>
  The services of a collection of one image, when the network is down for the first
  download only.
\<close>

definition offline_at_first :: "string StreamEnv" where
  "offline_at_first =
     (example_env (\<lambda>token cycle. Inr [example_file 11 3 False ''a.jpg'']))
       \<lparr>httpGetFile := (\<lambda>attempt token i.
          if attempt = 0 then Inl (Error ''Network Error'') else Inr (Some ''bytes''))\<rparr>"

definition example_castData :: CastData where
  "example_castData = \<lparr>collectionKey = ''ck'', castToken = ''token''\<rparr>"

section \<open>The retention queue, by the number of URLs created\<close>

text \<open>
  With \<open>mint k\<close> the \<open>k\<close>-th URL created: what \<open>previousURLs\<close> holds, and what has
  been revoked, once \<open>n\<close> URLs have been created and yielded.
\<close>

fun queue_after :: "(nat \<Rightarrow> string) \<Rightarrow> nat \<Rightarrow> string list" where
  "queue_after mint 0 = []"
| "queue_after mint (Suc 0) = [mint 0]"
| "queue_after mint (Suc (Suc k)) = [mint k, mint (Suc k)]"

fun revoked_after :: "(nat \<Rightarrow> string) \<Rightarrow> nat \<Rightarrow> string list" where
  "revoked_after mint 0 = []"
| "revoked_after mint (Suc 0) = []"
| "revoked_after mint (Suc (Suc k)) = map mint [0..<k]"

definition tracked :: "'x StreamEnv \<Rightarrow> Slideshow \<Rightarrow> bool" where
  "tracked env st \<longleftrightarrow>
     urls st = []
     \<and> previousURLs st = queue_after (createObjectURL env) (created st)
     \<and> revoked st = revoked_after (createObjectURL env) (created st)"

section \<open>Files that are passed over\<close>

text \<open>The state an outcome carries.\<close>

fun state_of :: "outcome \<Rightarrow> Slideshow" where
  "state_of (Yielded urlPair st rest) = st"
| "state_of (Threw e st) = st"
| "state_of (Exhausted st) = st"
| "state_of (Returned st) = st"

text \<open>
  A pass over the files left in a cycle that gives nothing to show, when the next
  download is number \<open>attempt\<close>: every file decrypts, and then either the filter
  rejects it or making it renderable fails at the attempt made for it then (a later
  attempt for the same file may well succeed).
\<close>

fun nothing_to_show ::
  "'x StreamEnv \<Rightarrow> CastData \<Rightarrow> nat \<Rightarrow> EncryptedEnteFile list \<Rightarrow> bool" where
  "nothing_to_show env castData attempt [] = True"
| "nothing_to_show env castData attempt (encryptedFile # rest) =
     (case decryptEnteFile env encryptedFile (collectionKey castData) of
        Inl e \<Rightarrow> False
      | Inr file \<Rightarrow>
          if \<not> isFileEligibleForCast (nameAndExtension env) (isNonWebImageFileExtension env) file
          then nothing_to_show env castData attempt rest
          else (case renderableImageBlob env (castToken castData) file attempt of
                  Inl e \<Rightarrow> nothing_to_show env castData (Suc attempt) rest
                | Inr blob \<Rightarrow> False))"

section \<open>Eligibility of a file for casting\<close>

text \<open>
  Claim C6. \<open>isFileEligibleForCast\<close> accepts a file exactly when its type is image or
  live photo, its size is at most 100 MiB, and the extension of its title is not a
  known non-web-renderable one. So an image of 150 MiB is rejected, an image of 50 MiB
  with a renderable extension is accepted, a video is rejected whatever its size and
  name, and a live photo (of 50 MiB, with a renderable extension) is accepted.
\<close>

theorem isFileEligibleForCast_iff:
  "(isFileEligibleForCast nae nonweb file \<longleftrightarrow>
      (fileType (metadata file) = IMAGE \<or> fileType (metadata file) = LIVE_PHOTO)
      \<and> fileSize file \<le> 100 * MiB
      \<and> \<not> nonweb (snd (nae (title (metadata file)))))
   \<and> (fileType (metadata file) = IMAGE \<and> fileSize file = 150 * MiB
        \<longrightarrow> \<not> isFileEligibleForCast nae nonweb file)
   \<and> (fileType (metadata file) = IMAGE \<and> fileSize file = 50 * MiB
        \<and> \<not> nonweb (snd (nae (title (metadata file))))
        \<longrightarrow> isFileEligibleForCast nae nonweb file)
   \<and> (fileType (metadata file) = VIDEO \<longrightarrow> \<not> isFileEligibleForCast nae nonweb file)
   \<and> (fileType (metadata file) = LIVE_PHOTO \<and> fileSize file = 50 * MiB
        \<and> \<not> nonweb (snd (nae (title (metadata file))))
        \<longrightarrow> isFileEligibleForCast nae nonweb file)"
  by (auto simp: isFileEligibleForCast_def isImageOrLivePhoto_def MiB_def Let_def)

theorem isFileEligibleForCast_witness:
  "\<not> isFileEligibleForCast (\<lambda>t. (t, ''jpg'')) (\<lambda>x. x = ''heic'')
       \<lparr>fileID = 1, fileSize = 150 * MiB, fileDecryptionHeader = [],
        isDeleted = False, updationTime = 0, key = [],
        metadata = \<lparr>title = ''a.jpg'', fileType = IMAGE, creationTime = 0\<rparr>,
        pubMagicMetadata = None\<rparr>
   \<and> isFileEligibleForCast (\<lambda>t. (t, ''jpg'')) (\<lambda>x. x = ''heic'')
       \<lparr>fileID = 2, fileSize = 50 * MiB, fileDecryptionHeader = [],
        isDeleted = False, updationTime = 0, key = [],
        metadata = \<lparr>title = ''b.jpg'', fileType = IMAGE, creationTime = 0\<rparr>,
        pubMagicMetadata = None\<rparr>
   \<and> \<not> isFileEligibleForCast (\<lambda>t. (t, ''jpg'')) (\<lambda>x. x = ''heic'')
       \<lparr>fileID = 3, fileSize = 50 * MiB, fileDecryptionHeader = [],
        isDeleted = False, updationTime = 0, key = [],
        metadata = \<lparr>title = ''c.jpg'', fileType = VIDEO, creationTime = 0\<rparr>,
        pubMagicMetadata = None\<rparr>
   \<and> isFileEligibleForCast (\<lambda>t. (t, ''jpg'')) (\<lambda>x. x = ''heic'')
       \<lparr>fileID = 4, fileSize = 50 * MiB, fileDecryptionHeader = [],
        isDeleted = False, updationTime = 0, key = [],
        metadata = \<lparr>title = ''d.jpg'', fileType = LIVE_PHOTO, creationTime = 0\<rparr>,
        pubMagicMetadata = None\<rparr>"
  using
    isFileEligibleForCast_iff [of "\<lambda>t. (t, ''jpg'')" "\<lambda>x. x = ''heic''"
       "\<lparr>fileID = 1, fileSize = 150 * MiB, fileDecryptionHeader = [],
        isDeleted = False, updationTime = 0, key = [],
        metadata = \<lparr>title = ''a.jpg'', fileType = IMAGE, creationTime = 0\<rparr>,
        pubMagicMetadata = None\<rparr>"]
    isFileEligibleForCast_iff [of "\<lambda>t. (t, ''jpg'')" "\<lambda>x. x = ''heic''"
       "\<lparr>fileID = 2, fileSize = 50 * MiB, fileDecryptionHeader = [],
        isDeleted = False, updationTime = 0, key = [],
        metadata = \<lparr>title = ''b.jpg'', fileType = IMAGE, creationTime = 0\<rparr>,
        pubMagicMetadata = None\<rparr>"]
    isFileEligibleForCast_iff [of "\<lambda>t. (t, ''jpg'')" "\<lambda>x. x = ''heic''"
       "\<lparr>fileID = 3, fileSize = 50 * MiB, fileDecryptionHeader = [],
        isDeleted = False, updationTime = 0, key = [],
        metadata = \<lparr>title = ''c.jpg'', fileType = VIDEO, creationTime = 0\<rparr>,
        pubMagicMetadata = None\<rparr>"]
    isFileEligibleForCast_iff [of "\<lambda>t. (t, ''jpg'')" "\<lambda>x. x = ''heic''"
       "\<lparr>fileID = 4, fileSize = 50 * MiB, fileDecryptionHeader = [],
        isDeleted = False, updationTime = 0, key = [],
        metadata = \<lparr>title = ''d.jpg'', fileType = LIVE_PHOTO, creationTime = 0\<rparr>,
        pubMagicMetadata = None\<rparr>"]
  by (simp add: MiB_def)

section \<open>The persisted cast data\<close>

lemma fold_setItem:
  "distinct ks \<Longrightarrow>
   fold (\<lambda>key s. s(key \<mapsto> f key)) ks ls = (\<lambda>k. if k \<in> set ks then Some (f k) else ls k)"
proof (induction ks arbitrary: ls)
  case Nil
  show ?case by simp
next
  case (Cons a ks)
  then show ?case by (auto simp: fun_eq_iff)
qed

lemma storeCastData_object:
  "storeCastData (JObj kvs) ls =
     Inr (\<lambda>k. case map_of kvs k of Some v \<Rightarrow> Some (ToString v) | None \<Rightarrow> ls k)"
proof -
  have "fold (\<lambda>key s. s(key \<mapsto> ToString (getProp (JObj kvs) key))) (remdups (map fst kvs)) ls
        = (\<lambda>k. if k \<in> set (remdups (map fst kvs))
                then Some (ToString (getProp (JObj kvs) k)) else ls k)"
    by (rule fold_setItem) simp
  also have "\<dots> = (\<lambda>k. case map_of kvs k of Some v \<Rightarrow> Some (ToString v) | None \<Rightarrow> ls k)"
  proof (rule ext)
    fix k
    show "(if k \<in> set (remdups (map fst kvs))
           then Some (ToString (getProp (JObj kvs) k)) else ls k)
          = (case map_of kvs k of Some v \<Rightarrow> Some (ToString v) | None \<Rightarrow> ls k)"
    proof (cases "map_of kvs k")
      case None
      then have "k \<notin> fst ` set kvs" by (simp add: map_of_eq_None_iff)
      with None show ?thesis by simp
    next
      case (Some v)
      then have "k \<in> fst ` set kvs" by (metis map_of_eq_None_iff option.distinct(1))
      with Some show ?thesis by simp
    qed
  qed
  finally show ?thesis by (simp add: storeCastData_def)
qed

text \<open>
  Claim C8, as the code has it. \<open>storeCastData\<close> writes one string entry for every
  key of the payload object, whatever keys it holds, and leaves every other entry of
  the store as it was; a payload that is not an object throws. When the payload
  holds strings under \<open>collectionKey\<close> and \<open>castToken\<close>, \<open>readCastData\<close> returns
  those two values afterwards. \<open>readCastData\<close> throws exactly when one of the two
  entries is absent from the store.
\<close>

theorem storeCastData_writes_payload_keys:
  "storeCastData (JObj kvs) ls =
     Inr (\<lambda>k. case map_of kvs k of Some v \<Rightarrow> Some (ToString v) | None \<Rightarrow> ls k)
   \<and> (\<not> truthy payload \<or> typeof payload \<noteq> ''object''
        \<longrightarrow> storeCastData payload ls = Inl (Error ''Unexpected cast data''))
   \<and> (map_of kvs ''collectionKey'' = Some (JStr ck) \<and> map_of kvs ''castToken'' = Some (JStr ct)
        \<longrightarrow> (\<exists>ls'. storeCastData (JObj kvs) ls = Inr ls'
                  \<and> readCastData ls' = Inr \<lparr>collectionKey = ck, castToken = ct\<rparr>))
   \<and> ((\<exists>e. readCastData ls = Inl e) \<longleftrightarrow> ls ''collectionKey'' = None \<or> ls ''castToken'' = None)
   \<and> (ls ''collectionKey'' = Some a \<and> ls ''castToken'' = Some b
        \<longrightarrow> readCastData ls = Inr \<lparr>collectionKey = a, castToken = b\<rparr>)"
proof (intro conjI impI)
  show "storeCastData (JObj kvs) ls =
     Inr (\<lambda>k. case map_of kvs k of Some v \<Rightarrow> Some (ToString v) | None \<Rightarrow> ls k)"
    by (rule storeCastData_object)
next
  assume "\<not> truthy payload \<or> typeof payload \<noteq> ''object''"
  then show "storeCastData payload ls = Inl (Error ''Unexpected cast data'')"
    by (auto simp: storeCastData_def)
next
  assume "map_of kvs ''collectionKey'' = Some (JStr ck) \<and> map_of kvs ''castToken'' = Some (JStr ct)"
  then show "\<exists>ls'. storeCastData (JObj kvs) ls = Inr ls'
                  \<and> readCastData ls' = Inr \<lparr>collectionKey = ck, castToken = ct\<rparr>"
    by (simp add: storeCastData_object readCastData_def ensureString_def)
next
  show "(\<exists>e. readCastData ls = Inl e) \<longleftrightarrow> ls ''collectionKey'' = None \<or> ls ''castToken'' = None"
    by (auto simp: readCastData_def ensureString_def split: option.splits)
next
  assume "ls ''collectionKey'' = Some a \<and> ls ''castToken'' = Some b"
  then show "readCastData ls = Inr \<lparr>collectionKey = a, castToken = b\<rparr>"
    by (simp add: readCastData_def ensureString_def)
qed

theorem storeCastData_writes_payload_keys_witness:
  "storeCastData (JObj [(''collectionKey'', JStr ''k''), (''castToken'', JStr ''t'')])
       (Map.empty(''theme'' \<mapsto> ''dark''))
     = Inr (\<lambda>k. case map_of [(''collectionKey'', JStr ''k''), (''castToken'', JStr ''t'')] k of
                  Some v \<Rightarrow> Some (ToString v)
                | None \<Rightarrow> (Map.empty(''theme'' \<mapsto> ''dark'')) k)
   \<and> storeCastData (JStr ''abc'') (Map.empty(''theme'' \<mapsto> ''dark''))
     = Inl (Error ''Unexpected cast data'')
   \<and> (\<exists>ls'. storeCastData (JObj [(''collectionKey'', JStr ''k''), (''castToken'', JStr ''t'')])
               (Map.empty(''theme'' \<mapsto> ''dark'')) = Inr ls'
            \<and> readCastData ls' = Inr \<lparr>collectionKey = ''k'', castToken = ''t''\<rparr>)
   \<and> (\<exists>e. readCastData (Map.empty(''theme'' \<mapsto> ''dark'')) = Inl e)
   \<and> readCastData (Map.empty(''collectionKey'' \<mapsto> ''k'', ''castToken'' \<mapsto> ''t''))
     = Inr \<lparr>collectionKey = ''k'', castToken = ''t''\<rparr>"
  using
    storeCastData_writes_payload_keys
      [of "[(''collectionKey'', JStr ''k''), (''castToken'', JStr ''t'')]"
          "Map.empty(''theme'' \<mapsto> ''dark'')" "JStr ''abc''" "''k''" "''t''" "''x''" "''y''"]
    storeCastData_writes_payload_keys
      [of "[]" "Map.empty(''collectionKey'' \<mapsto> ''k'', ''castToken'' \<mapsto> ''t'')"
          "JNull" "''k''" "''t''" "''k''" "''t''"]
  by (simp add: storeCastData_def readCastData_def ensureString_def)

text \<open>
  A payload with a third key: the store ends with three entries, so the entries
  written are not only \<open>collectionKey\<close> and \<open>castToken\<close>.
\<close>

theorem storeCastData_third_entry_counterexample:
  "storeCastData
     (JObj [(''collectionKey'', JStr ''k''), (''castToken'', JStr ''t''),
            (''collectionID'', JStr ''42'')])
     Map.empty
   = Inr (Map.empty(''collectionKey'' \<mapsto> ''k'', ''castToken'' \<mapsto> ''t'',
                    ''collectionID'' \<mapsto> ''42''))
   \<and> (Map.empty(''collectionKey'' \<mapsto> ''k'', ''castToken'' \<mapsto> ''t'',
                 ''collectionID'' \<mapsto> ''42'')) ''collectionID'' = Some ''42''"
  by (simp add: storeCastData_def)

section \<open>The handshake listener\<close>

lemma advertise_same_collection:
  "\<forall>r \<in> set reqs. collectionID_of (snd (snd r)) = cid \<and> truthy_str (fst r ()) \<Longrightarrow>
   \<not> truthy_str (pairedCollectionID st) \<or> pairedCollectionID st = cid \<Longrightarrow>
   stopped (advertise st reqs) = stopped st
   \<and> sent (advertise st reqs)
       = sent st @ map (\<lambda>r. (namespace, fst (snd r), case fst r () of Some c \<Rightarrow> c | None \<Rightarrow> [])) reqs"
proof (induction reqs arbitrary: st)
  case Nil
  show ?case by simp
next
  case (Cons r reqs)
  obtain pc s d where r: "r = (pc, s, d)" by (cases r) auto
  from Cons.prems(1) r have cid: "collectionID_of d = cid" and code: "truthy_str (pc ())"
    by auto
  from code obtain c where c: "pc () = Some c" "c \<noteq> []"
    by (cases "pc ()") auto
  let ?st' = "incomingMessageListener pc s d st"
  from Cons.prems(2) cid c
  have step: "?st' = st\<lparr>pairedCollectionID := cid, sent := sent st @ [(namespace, s, c)]\<rparr>"
    by (auto simp: incomingMessageListener_def sendCustomMessage_def Let_def)
  have "\<forall>r \<in> set reqs. collectionID_of (snd (snd r)) = cid \<and> truthy_str (fst r ())"
    using Cons.prems(1) by simp
  moreover have "\<not> truthy_str (pairedCollectionID ?st') \<or> pairedCollectionID ?st' = cid"
    by (simp add: step)
  ultimately have
    "stopped (advertise ?st' reqs) = stopped ?st'
     \<and> sent (advertise ?st' reqs)
         = sent ?st' @ map (\<lambda>r. (namespace, fst (snd r), case fst r () of Some c \<Rightarrow> c | None \<Rightarrow> [])) reqs"
    by (rule Cons.IH)
  then show ?case by (simp add: r step c)
qed

text \<open>
  Claim C1, as the code has it. When \<open>pairedCollectionID\<close> holds a non-empty
  string and the collection of the request is not that string (the request carries
  another collection, or none at all), the context is stopped, nothing is sent and
  the binding is kept. When \<open>pairedCollectionID\<close> is undefined
  or empty, or equal to the collection of the request, the binding becomes the
  collection of the request; then, when the callback has no (or an empty) code, the
  context is stopped and nothing is sent, and when it has one, that code is sent to
  the sender and the context is not stopped. So a request that brings a collection
  when none is bound is answered and binds it. A run of requests for one
  collection, each finding a code, never stops the context and answers every
  request.
\<close>

theorem incomingMessageListener_cases:
  "(pairedCollectionID st = Some p \<and> p \<noteq> [] \<and> collectionID_of data \<noteq> Some p
      \<longrightarrow> incomingMessageListener provider senderId data st = st\<lparr>stopped := True\<rparr>)
   \<and> ((\<not> truthy_str (pairedCollectionID st) \<or> pairedCollectionID st = collectionID_of data)
        \<and> \<not> truthy_str (provider ())
      \<longrightarrow> incomingMessageListener provider senderId data st
            = st\<lparr>pairedCollectionID := collectionID_of data, stopped := True\<rparr>)
   \<and> ((\<not> truthy_str (pairedCollectionID st) \<or> pairedCollectionID st = collectionID_of data)
        \<and> provider () = Some c \<and> c \<noteq> []
      \<longrightarrow> incomingMessageListener provider senderId data st
            = st\<lparr>pairedCollectionID := collectionID_of data,
                 sent := sent st @ [(namespace, senderId, c)]\<rparr>)
   \<and> (pairedCollectionID st = None \<and> collectionID_of data = Some q
        \<and> provider () = Some c \<and> c \<noteq> []
      \<longrightarrow> incomingMessageListener provider senderId data st
            = st\<lparr>pairedCollectionID := Some q, sent := sent st @ [(namespace, senderId, c)]\<rparr>)
   \<and> ((\<forall>r \<in> set reqs. collectionID_of (snd (snd r)) = cid \<and> truthy_str (fst r ()))
        \<and> (\<not> truthy_str (pairedCollectionID st) \<or> pairedCollectionID st = cid)
      \<longrightarrow> stopped (advertise st reqs) = stopped st
          \<and> sent (advertise st reqs)
              = sent st @ map (\<lambda>r. (namespace, fst (snd r),
                                      case fst r () of Some c \<Rightarrow> c | None \<Rightarrow> [])) reqs)"
proof (intro conjI impI)
  assume "pairedCollectionID st = Some p \<and> p \<noteq> [] \<and> collectionID_of data \<noteq> Some p"
  then show "incomingMessageListener provider senderId data st = st\<lparr>stopped := True\<rparr>"
    by (auto simp: incomingMessageListener_def restart_def)
next
  assume "(\<not> truthy_str (pairedCollectionID st) \<or> pairedCollectionID st = collectionID_of data)
          \<and> \<not> truthy_str (provider ())"
  then show "incomingMessageListener provider senderId data st
            = st\<lparr>pairedCollectionID := collectionID_of data, stopped := True\<rparr>"
    by (cases "provider ()") (auto simp: incomingMessageListener_def restart_def Let_def)
next
  assume "(\<not> truthy_str (pairedCollectionID st) \<or> pairedCollectionID st = collectionID_of data)
          \<and> provider () = Some c \<and> c \<noteq> []"
  then show "incomingMessageListener provider senderId data st
            = st\<lparr>pairedCollectionID := collectionID_of data,
                 sent := sent st @ [(namespace, senderId, c)]\<rparr>"
    by (auto simp: incomingMessageListener_def sendCustomMessage_def Let_def)
next
  assume "pairedCollectionID st = None \<and> collectionID_of data = Some q
          \<and> provider () = Some c \<and> c \<noteq> []"
  then show "incomingMessageListener provider senderId data st
            = st\<lparr>pairedCollectionID := Some q, sent := sent st @ [(namespace, senderId, c)]\<rparr>"
    by (simp add: incomingMessageListener_def sendCustomMessage_def Let_def)
next
  assume a: "(\<forall>r \<in> set reqs. collectionID_of (snd (snd r)) = cid \<and> truthy_str (fst r ()))
        \<and> (\<not> truthy_str (pairedCollectionID st) \<or> pairedCollectionID st = cid)"
  have "stopped (advertise st reqs) = stopped st
   \<and> sent (advertise st reqs)
       = sent st @ map (\<lambda>r. (namespace, fst (snd r), case fst r () of Some c \<Rightarrow> c | None \<Rightarrow> [])) reqs"
    using a by (intro advertise_same_collection) auto
  then show "stopped (advertise st reqs) = stopped st"
    and "sent (advertise st reqs)
              = sent st @ map (\<lambda>r. (namespace, fst (snd r),
                                      case fst r () of Some c \<Rightarrow> c | None \<Rightarrow> [])) reqs"
    by simp_all
qed

theorem incomingMessageListener_cases_witness:
  "incomingMessageListener (codeProvider (Some ''1234'')) ''sender''
       (JObj [(''collectionID'', JStr ''B'')])
       \<lparr>pairedCollectionID = Some ''A'', stopped = False, sent = []\<rparr>
     = \<lparr>pairedCollectionID = Some ''A'', stopped = True, sent = []\<rparr>
   \<and> incomingMessageListener (codeProvider (Some ''1234'')) ''sender'' (JObj [])
       \<lparr>pairedCollectionID = Some ''A'', stopped = False, sent = []\<rparr>
     = \<lparr>pairedCollectionID = Some ''A'', stopped = True, sent = []\<rparr>
   \<and> incomingMessageListener (codeProvider None) ''sender''
       (JObj [(''collectionID'', JStr ''A'')])
       \<lparr>pairedCollectionID = Some ''A'', stopped = False, sent = []\<rparr>
     = \<lparr>pairedCollectionID = Some ''A'', stopped = True, sent = []\<rparr>
   \<and> incomingMessageListener (codeProvider (Some ''1234'')) ''sender''
       (JObj [(''collectionID'', JStr ''A'')]) advertiseCode_start
     = \<lparr>pairedCollectionID = Some ''A'', stopped = False,
        sent = [(namespace, ''sender'', ''1234'')]\<rparr>
   \<and> stopped (advertise advertiseCode_start
        [(codeProvider (Some ''1234''), ''sender'', JObj [(''collectionID'', JStr ''A'')]),
         (codeProvider (Some ''5678''), ''sender'', JObj [(''collectionID'', JStr ''A'')])])
     = False
   \<and> sent (advertise advertiseCode_start
        [(codeProvider (Some ''1234''), ''sender'', JObj [(''collectionID'', JStr ''A'')]),
         (codeProvider (Some ''5678''), ''sender'', JObj [(''collectionID'', JStr ''A'')])])
     = [(namespace, ''sender'', ''1234''), (namespace, ''sender'', ''5678'')]"
  using
    incomingMessageListener_cases
      [where st = "\<lparr>pairedCollectionID = Some ''A'', stopped = False, sent = []\<rparr>"
         and p = "''A''" and data = "JObj [(''collectionID'', JStr ''B'')]" and q = "''B''"
         and provider = "codeProvider (Some ''1234'')" and senderId = "''sender''"
         and c = "''1234''" and reqs = "[]" and cid = "Some ''A''"]
    incomingMessageListener_cases
      [where st = "\<lparr>pairedCollectionID = Some ''A'', stopped = False, sent = []\<rparr>"
         and p = "''A''" and data = "JObj []" and q = "''B''"
         and provider = "codeProvider (Some ''1234'')" and senderId = "''sender''"
         and c = "''1234''" and reqs = "[]" and cid = "Some ''A''"]
    incomingMessageListener_cases
      [where st = "\<lparr>pairedCollectionID = Some ''A'', stopped = False, sent = []\<rparr>"
         and p = "''A''" and data = "JObj [(''collectionID'', JStr ''A'')]" and q = "''A''"
         and provider = "codeProvider None" and senderId = "''sender''"
         and c = "''1234''" and reqs = "[]" and cid = "Some ''A''"]
    incomingMessageListener_cases
      [where st = advertiseCode_start
         and p = "''A''" and data = "JObj [(''collectionID'', JStr ''A'')]" and q = "''A''"
         and provider = "codeProvider (Some ''1234'')" and senderId = "''sender''"
         and c = "''1234''"
         and reqs = "[(codeProvider (Some ''1234''), ''sender'',
                        JObj [(''collectionID'', JStr ''A'')]),
                      (codeProvider (Some ''5678''), ''sender'',
                        JObj [(''collectionID'', JStr ''A'')])]"
         and cid = "Some ''A''"]
  by (simp add: collectionID_of_def codeProvider_def advertiseCode_start_def
        incomingMessageListener_def sendCustomMessage_def restart_def)

text \<open>
  Two sessions the claim as written gets wrong. In the first the opening request
  carries no collection and the next one brings collection \<open>A\<close>: both are answered
  and the context is not stopped. In the second the opening request binds the empty
  string and the next one brings collection \<open>B\<close>: again both are answered.
\<close>

theorem advertise_rebinds_counterexample:
  "advertise advertiseCode_start
     [(codeProvider (Some ''1234''), ''sender'', JObj []),
      (codeProvider (Some ''1234''), ''sender'', JObj [(''collectionID'', JStr ''A'')])]
   = \<lparr>pairedCollectionID = Some ''A'', stopped = False,
      sent = [(namespace, ''sender'', ''1234''), (namespace, ''sender'', ''1234'')]\<rparr>
   \<and> advertise advertiseCode_start
     [(codeProvider (Some ''1234''), ''sender'', JObj [(''collectionID'', JStr [])]),
      (codeProvider (Some ''1234''), ''sender'', JObj [(''collectionID'', JStr ''B'')])]
   = \<lparr>pairedCollectionID = Some ''B'', stopped = False,
      sent = [(namespace, ''sender'', ''1234''), (namespace, ''sender'', ''1234'')]\<rparr>"
  by (simp add: incomingMessageListener_def collectionID_of_def codeProvider_def
        advertiseCode_start_def sendCustomMessage_def)

section \<open>Registration retries until it succeeds\<close>

lemma register_loop_done:
  "registerDevice n pk = Inr code \<Longrightarrow> code \<noteq> [] \<Longrightarrow>
   register_loop registerDevice pk n pc ev = Some (code, ev @ [RegisterDevice pk])"
  by (subst register_loop.simps) simp

lemma register_loop_again:
  assumes falsy: "\<not> truthy_str (case rd n pk of Inl e \<Rightarrow> pc | Inr c \<Rightarrow> Some c)"
  shows "register_loop rd pk n pc ev
      = register_loop rd pk (Suc n) (case rd n pk of Inl e \<Rightarrow> pc | Inr c \<Rightarrow> Some c)
          (ev @ [RegisterDevice pk] @ [Wait 10000])"
proof -
  let ?pc' = "case rd n pk of Inl e \<Rightarrow> pc | Inr c \<Rightarrow> Some c"
  have "register_loop rd pk n pc ev =
        (case ?pc' of
            None \<Rightarrow> register_loop rd pk (Suc n) ?pc' ((ev @ [RegisterDevice pk]) @ [Wait 10000])
          | Some code \<Rightarrow>
              if code \<noteq> [] then Some (code, ev @ [RegisterDevice pk])
              else register_loop rd pk (Suc n) ?pc' ((ev @ [RegisterDevice pk]) @ [Wait 10000]))"
    by (subst register_loop.simps) (simp only: Let_def)
  also have "\<dots> = register_loop rd pk (Suc n) ?pc' (ev @ [RegisterDevice pk] @ [Wait 10000])"
  proof (cases ?pc')
    case None
    then show ?thesis by simp
  next
    case (Some c)
    with falsy have "c = []" by simp
    with Some show ?thesis by simp
  qed
  finally show ?thesis .
qed

lemma failed_attempt_keeps_falsy:
  assumes "\<not> attempt_succeeds rd pk n" and "\<not> truthy_str pc"
  shows "\<not> truthy_str (case rd n pk of Inl e \<Rightarrow> pc | Inr c \<Rightarrow> Some c)"
proof (cases "rd n pk")
  case (Inl e)
  with assms(2) show ?thesis by simp
next
  case (Inr c)
  with assms(1) show ?thesis by (simp add: attempt_succeeds_def)
qed

lemma register_loop_succeeds:
  "rd (n + k) pk = Inr code \<Longrightarrow> code \<noteq> [] \<Longrightarrow>
   \<forall>j<k. \<not> attempt_succeeds rd pk (n + j) \<Longrightarrow> \<not> truthy_str pc \<Longrightarrow>
   register_loop rd pk n pc ev
     = Some (code, ev @ concat (replicate k [RegisterDevice pk, Wait 10000]) @ [RegisterDevice pk])"
proof (induction k arbitrary: n pc ev)
  case 0
  then show ?case by (simp add: register_loop_done)
next
  case (Suc k)
  from Suc.prems(3) have fail: "\<not> attempt_succeeds rd pk (n + 0)" by blast
  let ?pc' = "case rd n pk of Inl e \<Rightarrow> pc | Inr c \<Rightarrow> Some c"
  have falsy: "\<not> truthy_str ?pc'"
    using fail Suc.prems(4) by (intro failed_attempt_keeps_falsy) simp_all
  have "register_loop rd pk (Suc n) ?pc' (ev @ [RegisterDevice pk] @ [Wait 10000])
      = Some (code, (ev @ [RegisterDevice pk] @ [Wait 10000])
                @ concat (replicate k [RegisterDevice pk, Wait 10000]) @ [RegisterDevice pk])"
  proof (rule Suc.IH)
    show "rd (Suc n + k) pk = Inr code" using Suc.prems(1) by simp
    show "code \<noteq> []" by fact
    show "\<forall>j<k. \<not> attempt_succeeds rd pk (Suc n + j)"
    proof (intro allI impI)
      fix j assume "j < k"
      then have "Suc j < Suc k" by simp
      with Suc.prems(3) have "\<not> attempt_succeeds rd pk (n + Suc j)" by blast
      then show "\<not> attempt_succeeds rd pk (Suc n + j)" by simp
    qed
    show "\<not> truthy_str ?pc'" by fact
  qed
  then show ?case by (simp add: register_loop_again [where rd=rd and n=n and pk=pk and pc=pc and ev=ev, OF falsy])
qed

lemma register_loop_Some_success:
  assumes returns: "register_loop rd pk n pc ev = Some r"
  shows "\<not> truthy_str pc \<longrightarrow> (\<exists>j\<ge>n. attempt_succeeds rd pk j)"
proof (rule register_loop.raw_induct
    [where P = "\<lambda>rd pk n pc ev r. \<not> truthy_str pc \<longrightarrow> (\<exists>j\<ge>n. attempt_succeeds rd pk j)",
     OF _ returns])
  fix loop rd pk n pc ev r
  assume IH: "\<And>rd pk n pc ev r. loop rd pk n pc ev = Some r \<Longrightarrow>
                \<not> truthy_str pc \<longrightarrow> (\<exists>j\<ge>n. attempt_succeeds rd pk j)"
    and step:
      "(let pairingCode' = (case rd n pk of Inl e \<Rightarrow> pc | Inr code \<Rightarrow> Some code);
            events' = ev @ [RegisterDevice pk]
        in case pairingCode' of
             None \<Rightarrow> loop rd pk (Suc n) pairingCode' (events' @ [Wait 10000])
           | Some code \<Rightarrow>
               if code \<noteq> [] then Some (code, events')
               else loop rd pk (Suc n) pairingCode' (events' @ [Wait 10000])) = Some r"
  show "\<not> truthy_str pc \<longrightarrow> (\<exists>j\<ge>n. attempt_succeeds rd pk j)"
  proof
    assume start: "\<not> truthy_str pc"
    show "\<exists>j\<ge>n. attempt_succeeds rd pk j"
    proof (cases "attempt_succeeds rd pk n")
      case True
      then show ?thesis by blast
    next
      case False
      let ?pc' = "case rd n pk of Inl e \<Rightarrow> pc | Inr c \<Rightarrow> Some c"
      have falsy: "\<not> truthy_str ?pc'"
        using False start by (rule failed_attempt_keeps_falsy)
      from step have body:
        "(case ?pc' of
            None \<Rightarrow> loop rd pk (Suc n) ?pc' ((ev @ [RegisterDevice pk]) @ [Wait 10000])
          | Some code \<Rightarrow>
              if code \<noteq> [] then Some (code, ev @ [RegisterDevice pk])
              else loop rd pk (Suc n) ?pc' ((ev @ [RegisterDevice pk]) @ [Wait 10000])) = Some r"
        by (simp only: Let_def)
      have next_call: "loop rd pk (Suc n) ?pc' ((ev @ [RegisterDevice pk]) @ [Wait 10000]) = Some r"
      proof (cases ?pc')
        case None
        with body show ?thesis by simp
      next
        case (Some c)
        with falsy have "c = []" by simp
        with body Some show ?thesis by simp
      qed
      have "\<not> truthy_str ?pc' \<longrightarrow> (\<exists>j\<ge>Suc n. attempt_succeeds rd pk j)"
        using next_call by (rule IH)
      with falsy obtain j where "j \<ge> Suc n" "attempt_succeeds rd pk j" by blast
      then show ?thesis by (intro exI[of _ j]) simp
    qed
  qed
qed

lemma calls_made_trace:
  "calls_made (concat (replicate k [RegisterDevice pk, Wait 10000]) @ [RegisterDevice pk]) = Suc k"
  by (induction k) simp_all

lemma time_waited_trace:
  "time_waited (concat (replicate k [RegisterDevice pk, Wait 10000]) @ [RegisterDevice pk]) = k * 10000"
  by (induction k) simp_all

text \<open>
  Claim C3. An attempt succeeds when \<^verbatim>\<open>registerDevice\<close> returns a pairing code
  (one that is not empty). \<open>register\<close> returns exactly when some attempt succeeds.
  When attempt \<open>k\<close> (counted from 0) is the first to succeed, \<open>register\<close> returns the
  registration with that attempt's pairing code and the generated keypair, after
  \<open>k + 1\<close> calls in all, made one after the other with a wait of 10000 ms after each
  failed one and nothing else in between.
\<close>

theorem register_retries_until_success:
  "((\<exists>r. register pub priv rd = Some r) \<longleftrightarrow> (\<exists>k. attempt_succeeds rd pub k))
   \<and> (rd k pub = Inr code \<and> code \<noteq> [] \<and> (\<forall>j<k. \<not> attempt_succeeds rd pub j)
        \<longrightarrow> (\<exists>events.
              register pub priv rd
                = Some (\<lparr>pairingCode = code, publicKeyB64 = pub, privateKeyB64 = priv\<rparr>, events)
              \<and> events = concat (replicate k [RegisterDevice pub, Wait 10000]) @ [RegisterDevice pub]
              \<and> calls_made events = Suc k
              \<and> time_waited events = k * 10000))"
proof (intro conjI impI iffI)
  assume "\<exists>r. register pub priv rd = Some r"
  then obtain r where "register_loop rd pub 0 None [] = Some r"
    by (auto simp: register_def split: option.splits)
  then have "\<not> truthy_str None \<longrightarrow> (\<exists>j\<ge>0. attempt_succeeds rd pub j)"
    by (rule register_loop_Some_success)
  then show "\<exists>k. attempt_succeeds rd pub k" by auto
next
  assume ex: "\<exists>k. attempt_succeeds rd pub k"
  define k where "k = (LEAST k. attempt_succeeds rd pub k)"
  from ex have k1: "attempt_succeeds rd pub k"
    unfolding k_def by (rule LeastI_ex)
  have k2: "\<forall>j<k. \<not> attempt_succeeds rd pub j"
  proof (intro allI impI)
    fix j assume "j < k"
    then show "\<not> attempt_succeeds rd pub j"
      unfolding k_def by (rule not_less_Least)
  qed
  from k1 obtain c where c: "rd k pub = Inr c" "c \<noteq> []"
    by (cases "rd k pub") (simp_all add: attempt_succeeds_def)
  have "register_loop rd pub 0 None []
     = Some (c, [] @ concat (replicate k [RegisterDevice pub, Wait 10000]) @ [RegisterDevice pub])"
    by (rule register_loop_succeeds) (use c k2 in simp_all)
  then show "\<exists>r. register pub priv rd = Some r" by (simp add: register_def)
next
  assume a: "rd k pub = Inr code \<and> code \<noteq> [] \<and> (\<forall>j<k. \<not> attempt_succeeds rd pub j)"
  have "register_loop rd pub 0 None []
     = Some (code, [] @ concat (replicate k [RegisterDevice pub, Wait 10000]) @ [RegisterDevice pub])"
    by (rule register_loop_succeeds) (use a in simp_all)
  then show "\<exists>events.
              register pub priv rd
                = Some (\<lparr>pairingCode = code, publicKeyB64 = pub, privateKeyB64 = priv\<rparr>, events)
              \<and> events = concat (replicate k [RegisterDevice pub, Wait 10000]) @ [RegisterDevice pub]
              \<and> calls_made events = Suc k
              \<and> time_waited events = k * 10000"
    by (simp add: register_def calls_made_trace time_waited_trace)
qed

theorem register_retries_until_success_witness:
  "(\<exists>r. register ''pub'' ''priv'' flaky_registerDevice = Some r)
   \<and> (\<exists>k. attempt_succeeds flaky_registerDevice ''pub'' k)
   \<and> flaky_registerDevice 2 ''pub'' = Inr ''ABC123''
   \<and> \<not> attempt_succeeds flaky_registerDevice ''pub'' 0
   \<and> \<not> attempt_succeeds flaky_registerDevice ''pub'' 1
   \<and> register ''pub'' ''priv'' flaky_registerDevice
       = Some (\<lparr>pairingCode = ''ABC123'', publicKeyB64 = ''pub'', privateKeyB64 = ''priv''\<rparr>,
               [RegisterDevice ''pub'', Wait 10000, RegisterDevice ''pub'', Wait 10000,
                RegisterDevice ''pub''])"
proof -
  have f0: "\<not> attempt_succeeds flaky_registerDevice ''pub'' 0"
    and f1: "\<not> attempt_succeeds flaky_registerDevice ''pub'' 1"
    and s2: "flaky_registerDevice 2 ''pub'' = Inr ''ABC123''"
    by (simp_all add: attempt_succeeds_def flaky_registerDevice_def)
  have before: "\<forall>j<2. \<not> attempt_succeeds flaky_registerDevice ''pub'' j"
  proof (intro allI impI)
    fix j :: nat assume "j < 2"
    then have "j = 0 \<or> j = 1" by auto
    with f0 f1 show "\<not> attempt_succeeds flaky_registerDevice ''pub'' j" by auto
  qed
  have ok: "attempt_succeeds flaky_registerDevice ''pub'' 2"
    by (simp add: attempt_succeeds_def flaky_registerDevice_def)
  from register_retries_until_success
         [of "''pub''" "''priv''" flaky_registerDevice 2 "''ABC123''"] s2 before ok
  have "(\<exists>r. register ''pub'' ''priv'' flaky_registerDevice = Some r)"
    and "register ''pub'' ''priv'' flaky_registerDevice
       = Some (\<lparr>pairingCode = ''ABC123'', publicKeyB64 = ''pub'', privateKeyB64 = ''priv''\<rparr>,
               concat (replicate 2 [RegisterDevice ''pub'', Wait 10000]) @ [RegisterDevice ''pub''])"
    by auto
  then show ?thesis using f0 f1 s2 ok by (auto simp: numeral_2_eq_2)
qed

section \<open>Polling for the cast data\<close>

text \<open>
  Claim C2. When the gateway has no payload for the pairing code (it answers
  \<^verbatim>\<open>null\<close> or the empty string), \<open>getCastData\<close> returns \<^verbatim>\<open>undefined\<close>, not an
  error. When it has one, the payload is opened with the keypair of the
  registration, decoded and parsed: a failure of any of the three is the result of
  \<open>getCastData\<close>, and otherwise the result is the parsed value, never
  \<^verbatim>\<open>undefined\<close>. The gateway is asked once and the payload is opened at most once.
\<close>

theorem getCastData_result:
  "(gateway_getCastData sv (pairingCode reg) = Inr None
      \<or> gateway_getCastData sv (pairingCode reg) = Inr (Some [])
      \<longrightarrow> getCastData sv reg = ([GatewayGetCastData (pairingCode reg)], Inr None))
   \<and> (gateway_getCastData sv (pairingCode reg) = Inr (Some enc) \<and> enc \<noteq> []
      \<longrightarrow> fst (getCastData sv reg)
            = [GatewayGetCastData (pairingCode reg),
               BoxSealOpen enc (publicKeyB64 reg) (privateKeyB64 reg)]
          \<and> snd (getCastData sv reg) \<noteq> Inr None
          \<and> (\<forall>e. boxSealOpen sv enc (publicKeyB64 reg) (privateKeyB64 reg) = Inl e
                \<longrightarrow> snd (getCastData sv reg) = Inl e)
          \<and> (\<forall>d e. boxSealOpen sv enc (publicKeyB64 reg) (privateKeyB64 reg) = Inr d
                  \<and> atob sv d = Inl e
                \<longrightarrow> snd (getCastData sv reg) = Inl e)
          \<and> (\<forall>d t e. boxSealOpen sv enc (publicKeyB64 reg) (privateKeyB64 reg) = Inr d
                  \<and> atob sv d = Inr t \<and> JSON_parse sv t = Inl e
                \<longrightarrow> snd (getCastData sv reg) = Inl e)
          \<and> (\<forall>d t v. boxSealOpen sv enc (publicKeyB64 reg) (privateKeyB64 reg) = Inr d
                  \<and> atob sv d = Inr t \<and> JSON_parse sv t = Inr v
                \<longrightarrow> snd (getCastData sv reg) = Inr (Some v)))"
proof (intro conjI impI)
  assume "gateway_getCastData sv (pairingCode reg) = Inr None
      \<or> gateway_getCastData sv (pairingCode reg) = Inr (Some [])"
  then show "getCastData sv reg = ([GatewayGetCastData (pairingCode reg)], Inr None)"
    by (auto simp: getCastData_def)
next
  assume a: "gateway_getCastData sv (pairingCode reg) = Inr (Some enc) \<and> enc \<noteq> []"
  then show "fst (getCastData sv reg)
            = [GatewayGetCastData (pairingCode reg),
               BoxSealOpen enc (publicKeyB64 reg) (privateKeyB64 reg)]"
    by (simp add: getCastData_def)
  from a show "snd (getCastData sv reg) \<noteq> Inr None"
    by (simp add: getCastData_def split: sum.splits)
  from a show "\<forall>e. boxSealOpen sv enc (publicKeyB64 reg) (privateKeyB64 reg) = Inl e
                \<longrightarrow> snd (getCastData sv reg) = Inl e"
    by (simp add: getCastData_def)
  from a show "\<forall>d e. boxSealOpen sv enc (publicKeyB64 reg) (privateKeyB64 reg) = Inr d
                  \<and> atob sv d = Inl e
                \<longrightarrow> snd (getCastData sv reg) = Inl e"
    by (simp add: getCastData_def)
  from a show "\<forall>d t e. boxSealOpen sv enc (publicKeyB64 reg) (privateKeyB64 reg) = Inr d
                  \<and> atob sv d = Inr t \<and> JSON_parse sv t = Inl e
                \<longrightarrow> snd (getCastData sv reg) = Inl e"
    by (simp add: getCastData_def)
  from a show "\<forall>d t v. boxSealOpen sv enc (publicKeyB64 reg) (privateKeyB64 reg) = Inr d
                  \<and> atob sv d = Inr t \<and> JSON_parse sv t = Inr v
                \<longrightarrow> snd (getCastData sv reg) = Inr (Some v)"
    by (simp add: getCastData_def)
qed

theorem getCastData_result_witness:
  "getCastData example_services
       \<lparr>pairingCode = ''ZZZ999'', publicKeyB64 = ''pub'', privateKeyB64 = ''priv''\<rparr>
     = ([GatewayGetCastData ''ZZZ999''], Inr None)
   \<and> getCastData example_services
       \<lparr>pairingCode = ''ABC123'', publicKeyB64 = ''pub'', privateKeyB64 = ''priv''\<rparr>
     = ([GatewayGetCastData ''ABC123'', BoxSealOpen ''sealed'' ''pub'' ''priv''],
        Inr (Some (JObj [])))
   \<and> getCastData example_services
       \<lparr>pairingCode = ''ABC123'', publicKeyB64 = ''pub'', privateKeyB64 = ''other''\<rparr>
     = ([GatewayGetCastData ''ABC123'', BoxSealOpen ''sealed'' ''pub'' ''other''],
        Inl (Error ''incorrect key pair''))"
  using
    getCastData_result [of example_services
      "\<lparr>pairingCode = ''ZZZ999'', publicKeyB64 = ''pub'', privateKeyB64 = ''priv''\<rparr>" "''sealed''"]
    getCastData_result [of example_services
      "\<lparr>pairingCode = ''ABC123'', publicKeyB64 = ''pub'', privateKeyB64 = ''priv''\<rparr>" "''sealed''"]
    getCastData_result [of example_services
      "\<lparr>pairingCode = ''ABC123'', publicKeyB64 = ''pub'', privateKeyB64 = ''other''\<rparr>" "''sealed''"]
  by (simp add: example_services_def getCastData_def)

section \<open>The paginated fetch of the collection\<close>

lemma foldl_max_insert:
  "foldl (\<lambda>mx x. max mx (g x)) (a::int) xs = Max (set (a # map g xs))"
proof (induction xs arbitrary: a)
  case Nil
  show ?case by simp
next
  case (Cons x xs)
  have "Max (insert (max a (g x)) (g ` set xs)) = Max (insert a (insert (g x) (g ` set xs)))"
  proof (cases "set xs = {}")
    case True
    then show ?thesis by simp
  next
    case False
    then show ?thesis by (simp add: max.assoc)
  qed
  with Cons.IH [of "max a (g x)"] show ?case by simp
qed

lemma do_while_pages:
  "ps \<noteq> [] \<Longrightarrow>
   \<forall>i<length ps. httpGet tok (n + i)
       (foldl (\<lambda>mx file. max mx (updationTime file)) since (concat (map diff (take i ps))))
     = Inr (ps ! i) \<Longrightarrow>
   \<forall>i<length ps - 1. hasMore (ps ! i) \<Longrightarrow> \<not> hasMore (last ps) \<Longrightarrow>
   do_while httpGet tok n files since asked
     = Some (asked @ map (\<lambda>i. foldl (\<lambda>mx file. max mx (updationTime file)) since
                                 (concat (map diff (take i ps)))) [0..<length ps],
             Inr (files @ concat (map live_files ps)))"
proof (induction ps arbitrary: n files since asked)
  case Nil
  then show ?case by simp
next
  case (Cons p ps)
  let ?adv = "\<lambda>s d. foldl (\<lambda>mx file. max mx (updationTime file)) s d"
  from Cons.prems(2) have first: "httpGet tok n since = Inr p" by force
  show ?case
  proof (cases "ps = []")
    case True
    with Cons.prems(4) have "\<not> hasMore p" by simp
    with first True show ?thesis
      by (subst do_while.simps) (simp add: live_files_def)
  next
    case False
    with Cons.prems(3) have more: "hasMore p" by force
    have step: "do_while httpGet tok n files since asked
        = do_while httpGet tok (Suc n) (files @ live_files p) (?adv since (diff p)) (asked @ [since])"
      using first more by (subst do_while.simps) (simp add: live_files_def)
    have served: "\<forall>i<length ps. httpGet tok (Suc n + i)
           (?adv (?adv since (diff p)) (concat (map diff (take i ps)))) = Inr (ps ! i)"
    proof (intro allI impI)
      fix i assume "i < length ps"
      then have "Suc i < length (p # ps)" by simp
      with Cons.prems(2)
      have "httpGet tok (n + Suc i) (?adv since (concat (map diff (take (Suc i) (p # ps)))))
              = Inr ((p # ps) ! Suc i)" by blast
      then show "httpGet tok (Suc n + i)
           (?adv (?adv since (diff p)) (concat (map diff (take i ps)))) = Inr (ps ! i)"
        by simp
    qed
    have mores: "\<forall>i<length ps - 1. hasMore (ps ! i)"
    proof (intro allI impI)
      fix i assume "i < length ps - 1"
      then have "Suc i < length (p # ps) - 1" by simp
      with Cons.prems(3) have "hasMore ((p # ps) ! Suc i)" by blast
      then show "hasMore (ps ! i)" by simp
    qed
    from Cons.prems(4) False have last: "\<not> hasMore (last ps)" by simp
    have "do_while httpGet tok (Suc n) (files @ live_files p) (?adv since (diff p)) (asked @ [since])
        = Some ((asked @ [since])
                  @ map (\<lambda>i. ?adv (?adv since (diff p)) (concat (map diff (take i ps))))
                      [0..<length ps],
                Inr ((files @ live_files p) @ concat (map live_files ps)))"
      using False served mores last by (rule Cons.IH)
    with step show ?thesis by (simp add: map_upt_Suc del: upt_Suc)
  qed
qed

lemma do_while_never_returns:
  assumes returns: "do_while httpGet tok n files since asked = Some y"
  shows "\<not> (\<forall>n t. \<exists>r. httpGet tok n t = Inr r \<and> hasMore r)"
proof (rule do_while.raw_induct
    [where P = "\<lambda>httpGet tok n files since asked y.
                  \<not> (\<forall>n t. \<exists>r. httpGet tok n t = Inr r \<and> hasMore r)",
     OF _ returns])
  fix loop httpGet tok n files since asked y
  assume IH: "\<And>httpGet tok n files since asked y.
                loop httpGet tok n files since asked = Some y \<Longrightarrow>
                \<not> (\<forall>n t. \<exists>r. httpGet tok n t = Inr r \<and> hasMore r)"
    and step:
      "(case httpGet tok n since of
          Inl e \<Rightarrow> Some (asked @ [since], Inl e)
        | Inr resp \<Rightarrow>
            (let files' = files @ filter (\<lambda>file. \<not> isDeleted file) (diff resp);
                 sinceTime' = foldl (\<lambda>mx file. max mx (updationTime file)) since (diff resp)
             in if hasMore resp
                then loop httpGet tok (Suc n) files' sinceTime' (asked @ [since])
                else Some (asked @ [since], Inr files'))) = Some y"
  show "\<not> (\<forall>n t. \<exists>r. httpGet tok n t = Inr r \<and> hasMore r)"
  proof
    assume always: "\<forall>n t. \<exists>r. httpGet tok n t = Inr r \<and> hasMore r"
    then obtain r where r: "httpGet tok n since = Inr r" "hasMore r" by blast
    with step have "loop httpGet tok (Suc n)
        (files @ filter (\<lambda>file. \<not> isDeleted file) (diff r))
        (foldl (\<lambda>mx file. max mx (updationTime file)) since (diff r)) (asked @ [since]) = Some y"
      by (simp add: Let_def)
    from IH [OF this] always show False by blast
  qed
qed

text \<open>
  Claim C4. Let the server answer the requests with the pages \<open>ps\<close>: request \<open>i\<close>,
  made with the greatest \<open>updationTime\<close> of the pages before it (0 for the first),
  is answered with page \<open>i\<close>, every page but the last reports more, and the last
  does not. Then \<open>getEncryptedCollectionFiles\<close> makes exactly these requests, one
  per page, and returns the files of all pages that are not deleted, in order. If
  every answer reports more, it never returns. For the pages \<open>[a, b]\<close> (more to come,
  greatest time 5) and \<open>[c]\<close> (no more), none deleted, it asks since 0 and since 5
  and returns \<open>[a, b, c]\<close>.
\<close>

theorem getEncryptedCollectionFiles_pages:
  "(ps \<noteq> []
      \<and> (\<forall>i<length ps. httpGet tok i (watermark (take i ps)) = Inr (ps ! i))
      \<and> (\<forall>i<length ps - 1. hasMore (ps ! i)) \<and> \<not> hasMore (last ps)
     \<longrightarrow> getEncryptedCollectionFiles httpGet tok
           = Some (map (\<lambda>i. watermark (take i ps)) [0..<length ps],
                   Inr (concat (map live_files ps))))
   \<and> ((\<forall>n t. \<exists>r. httpGet tok n t = Inr r \<and> hasMore r)
     \<longrightarrow> getEncryptedCollectionFiles httpGet tok = None)
   \<and> (httpGet tok 0 0 = Inr \<lparr>diff = [a, b], hasMore = True\<rparr>
      \<and> httpGet tok 1 5 = Inr \<lparr>diff = [c], hasMore = False\<rparr>
      \<and> max (updationTime a) (updationTime b) = 5
      \<and> \<not> isDeleted a \<and> \<not> isDeleted b \<and> \<not> isDeleted c
     \<longrightarrow> getEncryptedCollectionFiles httpGet tok = Some ([0, 5], Inr [a, b, c]))"
proof (intro conjI impI)
  assume a: "ps \<noteq> []
      \<and> (\<forall>i<length ps. httpGet tok i (watermark (take i ps)) = Inr (ps ! i))
      \<and> (\<forall>i<length ps - 1. hasMore (ps ! i)) \<and> \<not> hasMore (last ps)"
  have wm: "watermark qs = foldl (\<lambda>mx file. max mx (updationTime file)) 0 (concat (map diff qs))"
    for qs by (simp add: watermark_def foldl_max_insert del: set_simps)
  have "do_while httpGet tok 0 [] 0 []
     = Some ([] @ map (\<lambda>i. foldl (\<lambda>mx file. max mx (updationTime file)) 0
                                 (concat (map diff (take i ps)))) [0..<length ps],
             Inr ([] @ concat (map live_files ps)))"
    by (rule do_while_pages) (use a in \<open>simp_all add: wm\<close>)
  then show "getEncryptedCollectionFiles httpGet tok
           = Some (map (\<lambda>i. watermark (take i ps)) [0..<length ps],
                   Inr (concat (map live_files ps)))"
    by (simp add: getEncryptedCollectionFiles_def wm)
next
  assume always: "\<forall>n t. \<exists>r. httpGet tok n t = Inr r \<and> hasMore r"
  show "getEncryptedCollectionFiles httpGet tok = None"
  proof (cases "do_while httpGet tok 0 [] 0 []")
    case None
    then show ?thesis by (simp add: getEncryptedCollectionFiles_def)
  next
    case (Some y)
    from do_while_never_returns [OF this] always show ?thesis by blast
  qed
next
  assume a: "httpGet tok 0 0 = Inr \<lparr>diff = [a, b], hasMore = True\<rparr>
      \<and> httpGet tok 1 5 = Inr \<lparr>diff = [c], hasMore = False\<rparr>
      \<and> max (updationTime a) (updationTime b) = 5
      \<and> \<not> isDeleted a \<and> \<not> isDeleted b \<and> \<not> isDeleted c"
  then have nonneg: "max 0 (updationTime a) = max (updationTime a) 0" by (simp add: max.commute)
  from a have m: "max (max 0 (updationTime a)) (updationTime b) = 5" by linarith
  have "do_while httpGet tok 0 [] 0 [] = do_while httpGet tok (Suc 0) [a, b] 5 [0]"
    using a m by (subst do_while.simps) simp
  also have "\<dots> = Some ([0, 5], Inr [a, b, c])"
    using a by (subst do_while.simps) simp
  finally show "getEncryptedCollectionFiles httpGet tok = Some ([0, 5], Inr [a, b, c])"
    by (simp add: getEncryptedCollectionFiles_def)
qed

theorem getEncryptedCollectionFiles_pages_witness:
  "getEncryptedCollectionFiles example_httpGet ''token''
     = Some ([0, 5], Inr [example_file 11 3 False ''image'', example_file 12 5 False ''image'',
                          example_file 14 7 False ''image''])
   \<and> getEncryptedCollectionFiles endless_httpGet ''token'' = None
   \<and> getEncryptedCollectionFiles
       (\<lambda>token n sinceTime.
          if sinceTime = 0
          then Inr \<lparr>diff = [example_file 11 3 False ''a'', example_file 12 5 False ''b''],
                    hasMore = True\<rparr>
          else Inr \<lparr>diff = [example_file 13 7 False ''c''], hasMore = False\<rparr>) ''token''
     = Some ([0, 5], Inr [example_file 11 3 False ''a'', example_file 12 5 False ''b'',
                          example_file 13 7 False ''c''])"
proof (intro conjI)
  let ?p0 = "\<lparr>diff = [example_file 11 3 False ''image'', example_file 12 5 False ''image''],
              hasMore = True\<rparr>"
  let ?p1 = "\<lparr>diff = [example_file 13 6 True ''image'', example_file 14 7 False ''image''],
              hasMore = False\<rparr>"
  have w0: "watermark [] = 0" and w1: "watermark [?p0] = 5"
    by (simp_all add: watermark_def example_file_def)
  have s0: "example_httpGet ''token'' 0 0 = Inr ?p0"
    and s1: "example_httpGet ''token'' (Suc 0) 5 = Inr ?p1"
    by (simp_all add: example_httpGet_def example_collection_def example_file_def)
  have served: "\<forall>i<length [?p0, ?p1].
      example_httpGet ''token'' i (watermark (take i [?p0, ?p1])) = Inr ([?p0, ?p1] ! i)"
  proof (intro allI impI)
    fix i assume "i < length [?p0, ?p1]"
    then have "i = 0 \<or> i = 1" by auto
    then show "example_httpGet ''token'' i (watermark (take i [?p0, ?p1])) = Inr ([?p0, ?p1] ! i)"
      by (auto simp: w0 w1 s0 s1)
  qed
  from getEncryptedCollectionFiles_pages [of "[?p0, ?p1]" example_httpGet "''token''"] served
  have "getEncryptedCollectionFiles example_httpGet ''token''
        = Some (map (\<lambda>i. watermark (take i [?p0, ?p1])) [0..<length [?p0, ?p1]],
                Inr (concat (map live_files [?p0, ?p1])))"
    by simp
  moreover have "map (\<lambda>i. watermark (take i [?p0, ?p1])) [0..<length [?p0, ?p1]] = [0, 5]"
    by (simp add: w0 w1 upt_rec)
  moreover have "concat (map live_files [?p0, ?p1])
      = [example_file 11 3 False ''image'', example_file 12 5 False ''image'',
         example_file 14 7 False ''image'']"
    by (simp add: live_files_def example_file_def)
  ultimately show "getEncryptedCollectionFiles example_httpGet ''token''
     = Some ([0, 5], Inr [example_file 11 3 False ''image'', example_file 12 5 False ''image'',
                          example_file 14 7 False ''image''])"
    by simp
next
  show "getEncryptedCollectionFiles endless_httpGet ''token'' = None"
    using getEncryptedCollectionFiles_pages [of "[]" endless_httpGet "''token''"]
    by (simp add: endless_httpGet_def)
next
  let ?get = "\<lambda>token (n::nat) (sinceTime::int).
          if sinceTime = 0
          then Inr \<lparr>diff = [example_file 11 3 False ''a'', example_file 12 5 False ''b''],
                    hasMore = True\<rparr>
          else Inr \<lparr>diff = [example_file 13 7 False ''c''], hasMore = False\<rparr>"
  show "getEncryptedCollectionFiles ?get ''token''
     = Some ([0, 5], Inr [example_file 11 3 False ''a'', example_file 12 5 False ''b'',
                          example_file 13 7 False ''c''])"
    using getEncryptedCollectionFiles_pages
      [of "[]" ?get "''token''" "example_file 11 3 False ''a''" "example_file 12 5 False ''b''"
          "example_file 13 7 False ''c''"]
    by (simp add: example_file_def)
qed

section \<open>The slideshow generator: one stretch of its body\<close>

lemma emit_Yielded:
  "emit st rest = Yielded urlPair st' rest' \<Longrightarrow> snd urlPair = [] \<and> rest' = rest"
  by (auto simp: emit_def Let_def split: list.splits)

lemma for_loop_cases:
  assumes "decryptEnteFile env encryptedFile (collectionKey castData) = Inr decrypted"
  shows "for_loop env castData st (encryptedFile # rest) =
     (if \<not> isFileEligibleForCast (nameAndExtension env) (isNonWebImageFileExtension env) decrypted
      then for_loop env castData st rest
      else (case renderableImageBlob env (castToken castData) decrypted (attempts st) of
              Inl e \<Rightarrow> for_loop env castData (st\<lparr>attempts := Suc (attempts st)\<rparr>) rest
            | Inr blob \<Rightarrow>
                emit (st\<lparr>attempts := Suc (attempts st), created := Suc (created st),
                         urls := urls st @ [createObjectURL env (created st)],
                         haveEligibleFiles := True\<rparr>) rest))"
  using assms by (simp add: createRenderableURL_def split: sum.splits)

lemma for_loop_decrypt_fails:
  "decryptEnteFile env encryptedFile (collectionKey castData) = Inl e \<Longrightarrow>
   for_loop env castData st (encryptedFile # rest) = Threw e st"
  by simp

lemma for_loop_Yielded_nextURL:
  "for_loop env castData st files = Yielded urlPair st' rest' \<Longrightarrow> snd urlPair = []"
proof (induction files arbitrary: st)
  case Nil
  then show ?case by simp
next
  case (Cons encryptedFile rest)
  show ?case
  proof (cases "decryptEnteFile env encryptedFile (collectionKey castData)")
    case (Inl e)
    with Cons.prems show ?thesis by simp
  next
    case (Inr decrypted)
    note unfold = for_loop_cases [OF Inr, of st rest]
    show ?thesis
    proof (cases "isFileEligibleForCast (nameAndExtension env) (isNonWebImageFileExtension env) decrypted")
      case False
      with Cons.prems unfold have "for_loop env castData st rest = Yielded urlPair st' rest'"
        by simp
      then show ?thesis by (rule Cons.IH)
    next
      case True
      show ?thesis
      proof (cases "renderableImageBlob env (castToken castData) decrypted (attempts st)")
        case (Inl e)
        with Cons.prems unfold True
        have "for_loop env castData (st\<lparr>attempts := Suc (attempts st)\<rparr>) rest
                = Yielded urlPair st' rest'" by simp
        then show ?thesis by (rule Cons.IH)
      next
        case (Inr blob)
        with Cons.prems unfold True
        have "emit (st\<lparr>attempts := Suc (attempts st), created := Suc (created st),
                         urls := urls st @ [createObjectURL env (created st)],
                         haveEligibleFiles := True\<rparr>) rest = Yielded urlPair st' rest'"
          by simp
        then show ?thesis by (simp add: emit_Yielded)
      qed
    qed
  qed
qed

lemma while_true_once:
  "while_true env castData st =
     (case listing env (castToken castData) (cycles st) of
        Inl e \<Rightarrow> Threw e (st\<lparr>cycles := Suc (cycles st)\<rparr>)
      | Inr files \<Rightarrow>
          (case for_loop env castData
                  (st\<lparr>cycles := Suc (cycles st), haveEligibleFiles := False\<rparr>)
                  (shuffled env (cycles st) files) of
             Exhausted st' \<Rightarrow> Returned st'
           | Yielded urlPair st' rest \<Rightarrow> Yielded urlPair st' rest
           | Threw e st' \<Rightarrow> Threw e st'
           | Returned st' \<Rightarrow> Returned st'))"
proof (cases "listing env (castToken castData) (cycles st)")
  case (Inl e)
  then show ?thesis by (subst while_true.simps) simp
next
  case (Inr files)
  let ?st0 = "st\<lparr>cycles := Suc (cycles st), haveEligibleFiles := False\<rparr>"
  show ?thesis
  proof (cases "for_loop env castData ?st0 (shuffled env (cycles st) files)")
    case (Exhausted st')
    then have "haveEligibleFiles st' = haveEligibleFiles ?st0" by (rule for_loop_Exhausted)
    then have "\<not> haveEligibleFiles st'" by simp
    with Inr Exhausted show ?thesis by (subst while_true.simps) simp
  next
    case (Yielded urlPair st' rest)
    with Inr show ?thesis by (subst while_true.simps) simp
  next
    case (Threw e st')
    with Inr show ?thesis by (subst while_true.simps) simp
  next
    case (Returned st')
    with Inr show ?thesis by (subst while_true.simps) simp
  qed
qed

lemma while_true_Yielded:
  "while_true env castData st = Yielded urlPair st' rest \<Longrightarrow>
   \<exists>files. listing env (castToken castData) (cycles st) = Inr files
     \<and> for_loop env castData (st\<lparr>cycles := Suc (cycles st), haveEligibleFiles := False\<rparr>)
           (shuffled env (cycles st) files) = Yielded urlPair st' rest"
  by (simp add: while_true_once split: sum.splits outcome.splits)

lemma resume_Yielded:
  "resume env castData st rest = Yielded urlPair st' rest' \<Longrightarrow>
   for_loop env castData st rest = Yielded urlPair st' rest'
   \<or> (\<exists>st1. for_loop env castData st rest = Exhausted st1
         \<and> while_true env castData st1 = Yielded urlPair st' rest')"
  by (auto simp: resume_def split: outcome.splits if_splits)

section \<open>The pair the generator yields\<close>

text \<open>
  Claim C10. Whatever state the generator is in, when a call of \<^verbatim>\<open>next()\<close> gives
  a pair of URLs, the second of them is the empty string; so it is for every call
  of a run from the start.
\<close>

theorem renderableImageURLs_nextURL_empty:
  "(fst (renderableImageURLs_next env castData g) = Value (url, nextURL) \<longrightarrow> nextURL = [])
   \<and> (nth_result env castData n = Value (url, nextURL) \<longrightarrow> nextURL = [])"
proof -
  have yielded: "nextURL = []"
    if "fst (renderableImageURLs_next env castData g) = Value (url, nextURL)" for g
  proof (cases g)
    case SuspendedStart
    with that obtain st' rest where "while_true env castData initial = Yielded (url, nextURL) st' rest"
      by (cases "while_true env castData initial") auto
    then have "\<exists>st0 files. for_loop env castData st0 files = Yielded (url, nextURL) st' rest"
      using while_true_Yielded by blast
    then show ?thesis using for_loop_Yielded_nextURL by fastforce
  next
    case (SuspendedYield st rest)
    with that obtain st' rest' where "resume env castData st rest = Yielded (url, nextURL) st' rest'"
      by (cases "resume env castData st rest") auto
    then have "\<exists>st0 files. for_loop env castData st0 files = Yielded (url, nextURL) st' rest'"
      using resume_Yielded while_true_Yielded by blast
    then show ?thesis using for_loop_Yielded_nextURL by fastforce
  next
    case (Completed st)
    with that show ?thesis by simp
  qed
  show ?thesis
    using yielded by (auto simp: nth_result_def)
qed

section \<open>The example slideshow, call by call\<close>

lemma example_decrypt:
  "decryptEnteFile (example_env l) (example_file i t deleted m) (collectionKey example_castData)
     = Inr \<lparr>fileID = i, fileSize = 1000, fileDecryptionHeader = ''header'',
            isDeleted = deleted, updationTime = t, key = ''key'',
            metadata = \<lparr>title = m, fileType = (if m = ''clip.mp4'' then VIDEO else IMAGE),
                        creationTime = 0\<rparr>,
            pubMagicMetadata = None\<rparr>"
  by (simp add: decryptEnteFile_def example_env_def example_file_def decryptMagic_def
        applyEdits_def example_castData_def)

lemma example_bad_key:
  "decryptEnteFile (example_env l) ((example_file i t deleted m)\<lparr>encryptedKey := ''bad''\<rparr>)
       (collectionKey example_castData)
     = Inl (Error ''decryption failed'')"
  by (simp add: decryptEnteFile_def example_env_def example_file_def)

lemma example_video_skipped:
  "for_loop (example_env l) example_castData st (example_file i t deleted ''clip.mp4'' # rest)
     = for_loop (example_env l) example_castData st rest"
  by (subst for_loop_cases [OF example_decrypt])
     (simp add: isFileEligibleForCast_def isImageOrLivePhoto_def)

lemma example_fetch_fails:
  "for_loop (example_env l) example_castData st (example_file 13 t deleted ''c.jpg'' # rest)
     = for_loop (example_env l) example_castData (st\<lparr>attempts := Suc (attempts st)\<rparr>) rest"
  by (subst for_loop_cases [OF example_decrypt])
     (simp add: isFileEligibleForCast_def isImageOrLivePhoto_def renderableImageBlob_def
        downloadFile_def example_env_def)

lemma example_image_emitted:
  "i \<noteq> 13 \<Longrightarrow> m = ''a.jpg'' \<or> m = ''d.jpg'' \<Longrightarrow>
   for_loop (example_env l) example_castData st (example_file i t deleted m # rest)
     = emit (st\<lparr>attempts := Suc (attempts st), created := Suc (created st),
                urls := urls st @ [''blob:'' @ replicate (created st) (CHR ''x'')],
                haveEligibleFiles := True\<rparr>) rest"
  by (subst for_loop_cases [OF example_decrypt])
     (auto simp: isFileEligibleForCast_def isImageOrLivePhoto_def renderableImageBlob_def
        downloadFile_def example_env_def)

lemma example_listed: "listing (example_env l) token cycle = l token cycle"
  by (simp add: example_env_def)

lemma example_not_shuffled: "shuffled (example_env l) cycle files = files"
  by (simp add: example_env_def)

lemma example_call_0:
  "renderableImageURLs_next (example_env changing_listing) example_castData SuspendedStart
     = (Value (''blob:'', []),
        SuspendedYield
          \<lparr>previousURLs = [''blob:''], urls = [], haveEligibleFiles = True,
           cycles = 1, attempts = 1, created = 1, revoked = []\<rparr>
          [example_file 14 7 False ''d.jpg'', example_file 12 5 False ''clip.mp4'',
           example_file 13 6 False ''c.jpg''])"
  by (simp add: while_true_once initial_def example_listed example_not_shuffled
        changing_listing_def example_image_emitted emit_def del: for_loop.simps(2))

lemma example_call_1:
  "renderableImageURLs_next (example_env changing_listing) example_castData
     (SuspendedYield
          \<lparr>previousURLs = [''blob:''], urls = [], haveEligibleFiles = True,
           cycles = 1, attempts = 1, created = 1, revoked = []\<rparr>
          [example_file 14 7 False ''d.jpg'', example_file 12 5 False ''clip.mp4'',
           example_file 13 6 False ''c.jpg''])
     = (Value (''blob:x'', []),
        SuspendedYield
          \<lparr>previousURLs = [''blob:'', ''blob:x''], urls = [], haveEligibleFiles = True,
           cycles = 1, attempts = 2, created = 2, revoked = []\<rparr>
          [example_file 12 5 False ''clip.mp4'', example_file 13 6 False ''c.jpg''])"
  by (simp add: resume_def example_image_emitted emit_def del: for_loop.simps(2))

lemma example_call_2:
  "renderableImageURLs_next (example_env changing_listing) example_castData
     (SuspendedYield
          \<lparr>previousURLs = [''blob:'', ''blob:x''], urls = [], haveEligibleFiles = True,
           cycles = 1, attempts = 2, created = 2, revoked = []\<rparr>
          [example_file 12 5 False ''clip.mp4'', example_file 13 6 False ''c.jpg''])
     = (Value (''blob:xx'', []),
        SuspendedYield
          \<lparr>previousURLs = [''blob:x'', ''blob:xx''], urls = [], haveEligibleFiles = True,
           cycles = 2, attempts = 4, created = 3, revoked = [''blob:'']\<rparr>
          [example_file 14 7 False ''d.jpg'', example_file 12 5 False ''clip.mp4'',
           example_file 13 6 False ''c.jpg''])"
  by (simp add: resume_def example_video_skipped example_fetch_fails while_true_once
        example_listed example_not_shuffled changing_listing_def del: for_loop.simps(2))
     (simp add: example_image_emitted emit_def revokeObjectURL_def numeral_2_eq_2
        del: for_loop.simps(2))

lemma example_call_3:
  "renderableImageURLs_next (example_env changing_listing) example_castData
     (SuspendedYield
          \<lparr>previousURLs = [''blob:x'', ''blob:xx''], urls = [], haveEligibleFiles = True,
           cycles = 2, attempts = 4, created = 3, revoked = [''blob:'']\<rparr>
          [example_file 14 7 False ''d.jpg'', example_file 12 5 False ''clip.mp4'',
           example_file 13 6 False ''c.jpg''])
     = (Value (''blob:xxx'', []),
        SuspendedYield
          \<lparr>previousURLs = [''blob:xx'', ''blob:xxx''], urls = [], haveEligibleFiles = True,
           cycles = 2, attempts = 5, created = 4, revoked = [''blob:'', ''blob:x'']\<rparr>
          [example_file 12 5 False ''clip.mp4'', example_file 13 6 False ''c.jpg''])"
  by (simp add: resume_def example_image_emitted emit_def revokeObjectURL_def numeral_3_eq_3
        del: for_loop.simps(2))

lemma example_call_4:
  "renderableImageURLs_next (example_env changing_listing) example_castData
     (SuspendedYield
          \<lparr>previousURLs = [''blob:xx'', ''blob:xxx''], urls = [], haveEligibleFiles = True,
           cycles = 2, attempts = 5, created = 4, revoked = [''blob:'', ''blob:x'']\<rparr>
          [example_file 12 5 False ''clip.mp4'', example_file 13 6 False ''c.jpg''])
     = (Done,
        Completed
          \<lparr>previousURLs = [''blob:xx'', ''blob:xxx''], urls = [], haveEligibleFiles = False,
           cycles = 3, attempts = 7, created = 4, revoked = [''blob:'', ''blob:x'']\<rparr>)"
  by (simp add: resume_def example_video_skipped example_fetch_fails while_true_once
        example_listed example_not_shuffled changing_listing_def del: for_loop.simps(2))

lemma example_after_2:
  "after_calls (example_env changing_listing) example_castData 2
     = SuspendedYield
          \<lparr>previousURLs = [''blob:'', ''blob:x''], urls = [], haveEligibleFiles = True,
           cycles = 1, attempts = 2, created = 2, revoked = []\<rparr>
          [example_file 12 5 False ''clip.mp4'', example_file 13 6 False ''c.jpg'']"
proof -
  have "after_calls (example_env changing_listing) example_castData 2
      = snd (renderableImageURLs_next (example_env changing_listing) example_castData
          (snd (renderableImageURLs_next (example_env changing_listing) example_castData
             SuspendedStart)))"
    by (simp add: numeral_2_eq_2 del: renderableImageURLs_next.simps)
  then show ?thesis unfolding example_call_0 snd_conv example_call_1 .
qed

lemma example_after_3:
  "after_calls (example_env changing_listing) example_castData 3
     = SuspendedYield
          \<lparr>previousURLs = [''blob:x'', ''blob:xx''], urls = [], haveEligibleFiles = True,
           cycles = 2, attempts = 4, created = 3, revoked = [''blob:'']\<rparr>
          [example_file 14 7 False ''d.jpg'', example_file 12 5 False ''clip.mp4'',
           example_file 13 6 False ''c.jpg'']"
proof -
  have "after_calls (example_env changing_listing) example_castData 3
        = snd (renderableImageURLs_next (example_env changing_listing) example_castData
                 (after_calls (example_env changing_listing) example_castData 2))"
    by (simp add: eval_nat_numeral del: renderableImageURLs_next.simps)
  then show ?thesis unfolding example_after_2 example_call_2 snd_conv .
qed

lemma example_after_4:
  "after_calls (example_env changing_listing) example_castData 4
     = SuspendedYield
          \<lparr>previousURLs = [''blob:xx'', ''blob:xxx''], urls = [], haveEligibleFiles = True,
           cycles = 2, attempts = 5, created = 4, revoked = [''blob:'', ''blob:x'']\<rparr>
          [example_file 12 5 False ''clip.mp4'', example_file 13 6 False ''c.jpg'']"
proof -
  have "after_calls (example_env changing_listing) example_castData 4
        = snd (renderableImageURLs_next (example_env changing_listing) example_castData
                 (after_calls (example_env changing_listing) example_castData 3))"
    by (simp add: eval_nat_numeral del: renderableImageURLs_next.simps)
  then show ?thesis unfolding example_after_3 example_call_3 snd_conv .
qed

theorem renderableImageURLs_nextURL_empty_witness:
  "fst (renderableImageURLs_next (example_env changing_listing) example_castData SuspendedStart)
     = Value (''blob:'', [])
   \<and> nth_result (example_env changing_listing) example_castData 3 = Value (''blob:xxx'', [])"
  using renderableImageURLs_nextURL_empty
          [of "example_env changing_listing" example_castData SuspendedStart "''blob:''" "[]" 0]
        renderableImageURLs_nextURL_empty
          [of "example_env changing_listing" example_castData SuspendedStart "''blob:xxx''" "[]" 3]
  unfolding nth_result_def example_after_3 example_call_3 example_call_0 by simp

section \<open>The retention queue holds the last two URLs\<close>

lemma length_queue_after: "length (queue_after mint n) \<le> 2"
  by (induction mint n rule: queue_after.induct) simp_all

lemma queue_after_Suc:
  "queue_after mint (Suc n)
     = (if length (queue_after mint n) > 1 then tl (queue_after mint n) else queue_after mint n)
       @ [mint n]"
  by (induction mint n rule: queue_after.induct) simp_all

lemma revoked_after_Suc:
  "revoked_after mint (Suc n)
     = revoked_after mint n
       @ (if length (queue_after mint n) > 1 then [hd (queue_after mint n)] else [])"
  by (induction mint n rule: queue_after.induct) simp_all

lemma queue_after_index:
  "x \<in> set (queue_after mint n) \<Longrightarrow> \<exists>i. x = mint i \<and> i < n \<and> n \<le> i + 2"
  by (induction mint n rule: queue_after.induct) auto

lemma revoked_after_index:
  "x \<in> set (revoked_after mint n) \<Longrightarrow> \<exists>i. x = mint i \<and> i + 2 < n"
  by (induction mint n rule: revoked_after.induct) auto

lemma revoked_never_queued_again:
  assumes "inj mint"
  shows "set (revoked_after mint n) \<inter> set (queue_after mint (n + m)) = {}"
proof (rule ccontr)
  assume "set (revoked_after mint n) \<inter> set (queue_after mint (n + m)) \<noteq> {}"
  then obtain x where r: "x \<in> set (revoked_after mint n)"
    and q: "x \<in> set (queue_after mint (n + m))" by blast
  from r obtain i where i: "x = mint i" "i + 2 < n" using revoked_after_index by blast
  from q obtain j where j: "x = mint j" "n + m \<le> j + 2" using queue_after_index by blast
  from i(1) j(1) assms have "i = j" by (simp add: inj_eq)
  with i(2) j(2) show False by simp
qed

lemma queue_is_live:
  assumes "inj mint"
  shows "set (queue_after mint n) = mint ` {..<n} - set (revoked_after mint n)"
proof (cases n)
  case 0
  then show ?thesis by simp
next
  case (Suc n')
  show ?thesis
  proof (cases n')
    case 0
    with Suc show ?thesis by (simp add: lessThan_Suc)
  next
    case (Suc k)
    have "{..<Suc (Suc k)} - {..<k} = {k, Suc k}" by auto
    moreover have "mint ` ({..<Suc (Suc k)} - {..<k}) = mint ` {..<Suc (Suc k)} - mint ` {..<k}"
      using assms by (rule image_set_diff)
    ultimately have "mint ` {..<Suc (Suc k)} - mint ` {..<k} = {mint k, mint (Suc k)}"
      by simp
    with Suc \<open>n = Suc n'\<close> show ?thesis by (simp add: lessThan_atLeast0)
  qed
qed

lemma tracked_attempts [simp]: "tracked env (st\<lparr>attempts := a\<rparr>) = tracked env st"
  by (simp add: tracked_def)

lemma tracked_cycle [simp]:
  "tracked env (st\<lparr>cycles := c, haveEligibleFiles := h\<rparr>) = tracked env st"
  by (simp add: tracked_def)

lemma emit_tracked:
  assumes "tracked env st"
  shows "\<exists>st'. emit (st\<lparr>attempts := a, created := Suc (created st),
                          urls := urls st @ [createObjectURL env (created st)],
                          haveEligibleFiles := True\<rparr>) rest
               = Yielded (createObjectURL env (created st), []) st' rest
           \<and> tracked env st' \<and> created st' = Suc (created st) \<and> haveEligibleFiles st'
           \<and> cycles st' = cycles st"
proof -
  let ?mint = "createObjectURL env"
  from assms have u: "urls st = []"
    and p: "previousURLs st = queue_after ?mint (created st)"
    and r: "revoked st = revoked_after ?mint (created st)"
    by (simp_all add: tracked_def)
  show ?thesis
  proof (cases "created st")
    case 0
    with u p r show ?thesis by (simp add: emit_def tracked_def)
  next
    case (Suc c)
    show ?thesis
    proof (cases c)
      case 0
      with Suc u p r show ?thesis by (simp add: emit_def tracked_def)
    next
      case (Suc k)
      with \<open>created st = Suc c\<close> u p r show ?thesis
        by (simp add: emit_def tracked_def revokeObjectURL_def)
    qed
  qed
qed

lemma for_loop_tracked:
  "tracked env st \<Longrightarrow> for_loop env castData st files = Yielded urlPair st' rest' \<Longrightarrow>
   tracked env st' \<and> created st' = Suc (created st) \<and> haveEligibleFiles st'
   \<and> cycles st' = cycles st \<and> urlPair = (createObjectURL env (created st), [])"
proof (induction files arbitrary: st)
  case Nil
  then show ?case by simp
next
  case (Cons encryptedFile rest)
  show ?case
  proof (cases "decryptEnteFile env encryptedFile (collectionKey castData)")
    case (Inl e)
    with Cons.prems show ?thesis by simp
  next
    case (Inr decrypted)
    note unfold = for_loop_cases [OF Inr, of st rest]
    show ?thesis
    proof (cases "isFileEligibleForCast (nameAndExtension env) (isNonWebImageFileExtension env) decrypted")
      case False
      with Cons.prems(2) unfold have "for_loop env castData st rest = Yielded urlPair st' rest'"
        by simp
      with Cons.prems(1) show ?thesis by (rule Cons.IH)
    next
      case True
      show ?thesis
      proof (cases "renderableImageBlob env (castToken castData) decrypted (attempts st)")
        case (Inl e)
        with Cons.prems(2) unfold True
        have "for_loop env castData (st\<lparr>attempts := Suc (attempts st)\<rparr>) rest
                = Yielded urlPair st' rest'" by simp
        moreover from Cons.prems(1) have "tracked env (st\<lparr>attempts := Suc (attempts st)\<rparr>)"
          by simp
        ultimately have "tracked env st'
            \<and> created st' = Suc (created (st\<lparr>attempts := Suc (attempts st)\<rparr>))
            \<and> haveEligibleFiles st'
            \<and> cycles st' = cycles (st\<lparr>attempts := Suc (attempts st)\<rparr>)
            \<and> urlPair = (createObjectURL env (created (st\<lparr>attempts := Suc (attempts st)\<rparr>)), [])"
          by (rule Cons.IH [rotated])
        then show ?thesis by simp
      next
        case (Inr blob)
        with Cons.prems(2) unfold True
        have e: "emit (st\<lparr>attempts := Suc (attempts st), created := Suc (created st),
                         urls := urls st @ [createObjectURL env (created st)],
                         haveEligibleFiles := True\<rparr>) rest = Yielded urlPair st' rest'"
          by simp
        from emit_tracked [OF Cons.prems(1), of "Suc (attempts st)" rest] e
        show ?thesis by auto
      qed
    qed
  qed
qed

lemma for_loop_Exhausted_state:
  "for_loop env castData st files = Exhausted st' \<Longrightarrow> st' = st\<lparr>attempts := attempts st'\<rparr>"
proof (induction files arbitrary: st)
  case Nil
  then show ?case by simp
next
  case (Cons encryptedFile rest)
  show ?case
  proof (cases "decryptEnteFile env encryptedFile (collectionKey castData)")
    case (Inl e)
    with Cons.prems show ?thesis by simp
  next
    case (Inr decrypted)
    note unfold = for_loop_cases [OF Inr, of st rest]
    show ?thesis
    proof (cases "isFileEligibleForCast (nameAndExtension env) (isNonWebImageFileExtension env) decrypted")
      case False
      with Cons.prems unfold have "for_loop env castData st rest = Exhausted st'" by simp
      then show ?thesis by (rule Cons.IH)
    next
      case True
      show ?thesis
      proof (cases "renderableImageBlob env (castToken castData) decrypted (attempts st)")
        case (Inl e)
        with Cons.prems unfold True
        have "for_loop env castData (st\<lparr>attempts := Suc (attempts st)\<rparr>) rest = Exhausted st'"
          by simp
        then have "st' = st\<lparr>attempts := Suc (attempts st)\<rparr>\<lparr>attempts := attempts st'\<rparr>"
          by (rule Cons.IH)
        then show ?thesis by simp
      next
        case (Inr blob)
        with Cons.prems unfold True
        have "emit (st\<lparr>attempts := Suc (attempts st), created := Suc (created st),
                         urls := urls st @ [createObjectURL env (created st)],
                         haveEligibleFiles := True\<rparr>) rest = Exhausted st'"
          by (simp del: for_loop.simps)
        then show ?thesis by (simp add: emit_not_Exhausted)
      qed
    qed
  qed
qed

lemma while_true_tracked:
  assumes "tracked env st" and "while_true env castData st = Yielded urlPair st' rest"
  shows "tracked env st' \<and> created st' = Suc (created st) \<and> haveEligibleFiles st'
         \<and> cycles st' = Suc (cycles st) \<and> urlPair = (createObjectURL env (created st), [])"
proof -
  let ?st0 = "st\<lparr>cycles := Suc (cycles st), haveEligibleFiles := False\<rparr>"
  from assms(2) obtain files where
    "for_loop env castData ?st0 (shuffled env (cycles st) files) = Yielded urlPair st' rest"
    using while_true_Yielded by blast
  moreover from assms(1) have "tracked env ?st0" by simp
  ultimately have "tracked env st' \<and> created st' = Suc (created ?st0) \<and> haveEligibleFiles st'
     \<and> cycles st' = cycles ?st0 \<and> urlPair = (createObjectURL env (created ?st0), [])"
    by (rule for_loop_tracked [rotated])
  then show ?thesis by simp
qed

lemma resume_tracked:
  assumes "tracked env st" and "resume env castData st rest = Yielded urlPair st' rest'"
  shows "tracked env st' \<and> created st' = Suc (created st) \<and> haveEligibleFiles st'
         \<and> urlPair = (createObjectURL env (created st), [])"
proof -
  from assms(2) consider
      (same) "for_loop env castData st rest = Yielded urlPair st' rest'"
    | (again) st1 where "for_loop env castData st rest = Exhausted st1"
        "while_true env castData st1 = Yielded urlPair st' rest'"
    using resume_Yielded by blast
  then show ?thesis
  proof cases
    case same
    with assms(1) show ?thesis using for_loop_tracked by blast
  next
    case again
    from again(1) have "st1 = st\<lparr>attempts := attempts st1\<rparr>"
      by (rule for_loop_Exhausted_state)
    then obtain a where st1: "st1 = st\<lparr>attempts := a\<rparr>" ..
    with assms(1) have "tracked env st1" by simp
    from while_true_tracked [OF this again(2)] show ?thesis by (simp add: st1)
  qed
qed

lemma after_calls_not_start: "after_calls env castData (Suc n) \<noteq> SuspendedStart"
proof -
  have "snd (settle r) \<noteq> SuspendedStart" for r by (cases r) simp_all
  then show ?thesis by (cases "after_calls env castData n") simp_all
qed

lemma after_calls_tracked:
  "after_calls env castData n = SuspendedYield st rest \<Longrightarrow>
   tracked env st \<and> created st = n \<and> haveEligibleFiles st"
proof (induction n arbitrary: st rest)
  case 0
  then show ?case by simp
next
  case (Suc n)
  show ?case
  proof (cases "after_calls env castData n")
    case SuspendedStart
    then have "n = 0" using after_calls_not_start by (cases n) auto
    from Suc.prems SuspendedStart
    obtain urlPair where "while_true env castData initial = Yielded urlPair st rest"
      by (cases "while_true env castData initial") auto
    moreover have "tracked env initial" by (simp add: tracked_def initial_def)
    ultimately have "tracked env st \<and> created st = Suc (created initial)
        \<and> haveEligibleFiles st \<and> cycles st = Suc (cycles initial)
        \<and> urlPair = (createObjectURL env (created initial), [])"
      by (rule while_true_tracked [rotated])
    with \<open>n = 0\<close> show ?thesis by (simp add: initial_def)
  next
    case (SuspendedYield st0 rest0)
    then have inv: "tracked env st0 \<and> created st0 = n \<and> haveEligibleFiles st0"
      by (rule Suc.IH)
    from Suc.prems SuspendedYield
    obtain urlPair where "resume env castData st0 rest0 = Yielded urlPair st rest"
      by (cases "resume env castData st0 rest0") auto
    with inv show ?thesis using resume_tracked by blast
  next
    case (Completed st0)
    with Suc.prems show ?thesis by simp
  qed
qed

lemma nth_result_yield:
  assumes "after_calls env castData n = SuspendedYield st rest"
    and "after_calls env castData (Suc n) = SuspendedYield st' rest'"
  shows "nth_result env castData n = Value (createObjectURL env n, [])"
proof -
  from assms(1) have inv: "tracked env st" "created st = n"
    using after_calls_tracked by blast+
  from assms obtain urlPair where y: "resume env castData st rest = Yielded urlPair st' rest'"
    by (cases "resume env castData st rest") auto
  from resume_tracked [OF inv(1) y] inv(2) have "urlPair = (createObjectURL env n, [])" by simp
  with y assms(1) show ?thesis by (simp add: nth_result_def)
qed

text \<open>
  Claim C7. At every yield (the generator being suspended after \<open>n\<close> calls of
  \<^verbatim>\<open>next()\<close>, each of which yielded) \<open>previousURLs\<close> holds at most two URLs, \<open>urls\<close>
  is empty, and \<open>n\<close> URLs have been created; when the browser never mints a URL
  twice, the URLs in \<open>previousURLs\<close> are exactly those created and not revoked. From
  one yield to the next, the oldest URL is revoked and removed when the queue held
  two, and the URL just created and yielded is appended. A URL that has been
  revoked is in no later \<open>previousURLs\<close> (again when no URL is minted twice).
\<close>

theorem previousURLs_bounded:
  "(after_calls env castData n = SuspendedYield st rest
      \<longrightarrow> length (previousURLs st) \<le> 2 \<and> urls st = [] \<and> created st = n
          \<and> (inj (createObjectURL env)
               \<longrightarrow> set (previousURLs st) = createObjectURL env ` {..<n} - set (revoked st)))
   \<and> (after_calls env castData n = SuspendedYield st rest
        \<and> after_calls env castData (Suc n) = SuspendedYield st' rest'
      \<longrightarrow> nth_result env castData n = Value (createObjectURL env n, [])
          \<and> previousURLs st'
              = (if length (previousURLs st) > 1 then tl (previousURLs st) else previousURLs st)
                @ [createObjectURL env n]
          \<and> revoked st'
              = revoked st
                @ (if length (previousURLs st) > 1 then [hd (previousURLs st)] else []))
   \<and> (inj (createObjectURL env)
        \<and> after_calls env castData n = SuspendedYield st rest
        \<and> after_calls env castData (n + m) = SuspendedYield st'' rest''
      \<longrightarrow> set (revoked st) \<inter> set (previousURLs st'') = {})"
proof (intro conjI impI)
  assume a: "after_calls env castData n = SuspendedYield st rest"
  then have t: "tracked env st" and c: "created st = n"
    using after_calls_tracked by blast+
  from t c show "length (previousURLs st) \<le> 2"
    by (simp add: tracked_def length_queue_after)
  from t show "urls st = []" by (simp add: tracked_def)
  from c show "created st = n" .
  assume "inj (createObjectURL env)"
  from queue_is_live [OF this, of n] t c
  show "set (previousURLs st) = createObjectURL env ` {..<n} - set (revoked st)"
    by (simp add: tracked_def)
next
  assume a: "after_calls env castData n = SuspendedYield st rest
        \<and> after_calls env castData (Suc n) = SuspendedYield st' rest'"
  then have t: "tracked env st" "created st = n" and t': "tracked env st'" "created st' = Suc n"
    using after_calls_tracked by blast+
  from a show "nth_result env castData n = Value (createObjectURL env n, [])"
    using nth_result_yield by blast
  from t t' show "previousURLs st'
              = (if length (previousURLs st) > 1 then tl (previousURLs st) else previousURLs st)
                @ [createObjectURL env n]"
    by (simp add: tracked_def queue_after_Suc del: queue_after.simps)
  from t t' show "revoked st'
              = revoked st
                @ (if length (previousURLs st) > 1 then [hd (previousURLs st)] else [])"
    by (simp add: tracked_def revoked_after_Suc del: queue_after.simps revoked_after.simps)
next
  assume a: "inj (createObjectURL env)
        \<and> after_calls env castData n = SuspendedYield st rest
        \<and> after_calls env castData (n + m) = SuspendedYield st'' rest''"
  then have t: "tracked env st" "created st = n"
    and t': "tracked env st''" "created st'' = n + m"
    using after_calls_tracked by blast+
  from a have "set (revoked_after (createObjectURL env) n)
      \<inter> set (queue_after (createObjectURL env) (n + m)) = {}"
    using revoked_never_queued_again by blast
  with t t' show "set (revoked st) \<inter> set (previousURLs st'') = {}"
    by (simp add: tracked_def)
qed

lemma example_mint_inj: "inj (createObjectURL (example_env l))"
  by (simp add: example_env_def inj_def)

theorem previousURLs_bounded_witness:
  "inj (createObjectURL (example_env changing_listing))
   \<and> after_calls (example_env changing_listing) example_castData 3
       = SuspendedYield
          \<lparr>previousURLs = [''blob:x'', ''blob:xx''], urls = [], haveEligibleFiles = True,
           cycles = 2, attempts = 4, created = 3, revoked = [''blob:'']\<rparr>
          [example_file 14 7 False ''d.jpg'', example_file 12 5 False ''clip.mp4'',
           example_file 13 6 False ''c.jpg'']
   \<and> after_calls (example_env changing_listing) example_castData 4
       = SuspendedYield
          \<lparr>previousURLs = [''blob:xx'', ''blob:xxx''], urls = [], haveEligibleFiles = True,
           cycles = 2, attempts = 5, created = 4, revoked = [''blob:'', ''blob:x'']\<rparr>
          [example_file 12 5 False ''clip.mp4'', example_file 13 6 False ''c.jpg'']
   \<and> length [''blob:x'', ''blob:xx''] \<le> (2::nat)
   \<and> set [''blob:x'', ''blob:xx'']
       = createObjectURL (example_env changing_listing) ` {..<3} - set [''blob:'']
   \<and> nth_result (example_env changing_listing) example_castData 3
       = Value (createObjectURL (example_env changing_listing) 3, [])
   \<and> set [''blob:''] \<inter> set [''blob:xx'', ''blob:xxx''] = {}"
proof -
  have s4: "after_calls (example_env changing_listing) example_castData (Suc 3)
       = SuspendedYield
          \<lparr>previousURLs = [''blob:xx'', ''blob:xxx''], urls = [], haveEligibleFiles = True,
           cycles = 2, attempts = 5, created = 4, revoked = [''blob:'', ''blob:x'']\<rparr>
          [example_file 12 5 False ''clip.mp4'', example_file 13 6 False ''c.jpg'']"
    and p4: "after_calls (example_env changing_listing) example_castData (3 + 1)
       = SuspendedYield
          \<lparr>previousURLs = [''blob:xx'', ''blob:xxx''], urls = [], haveEligibleFiles = True,
           cycles = 2, attempts = 5, created = 4, revoked = [''blob:'', ''blob:x'']\<rparr>
          [example_file 12 5 False ''clip.mp4'', example_file 13 6 False ''c.jpg'']"
    using example_after_4 by simp_all
  let ?s3 = "\<lparr>previousURLs = [''blob:x'', ''blob:xx''], urls = [], haveEligibleFiles = True,
               cycles = 2, attempts = 4, created = 3, revoked = [''blob:'']\<rparr>"
  let ?r3 = "[example_file 14 7 False ''d.jpg'', example_file 12 5 False ''clip.mp4'',
               example_file 13 6 False ''c.jpg'']"
  let ?s4 = "\<lparr>previousURLs = [''blob:xx'', ''blob:xxx''], urls = [], haveEligibleFiles = True,
               cycles = 2, attempts = 5, created = 4, revoked = [''blob:'', ''blob:x'']\<rparr>"
  let ?r4 = "[example_file 12 5 False ''clip.mp4'', example_file 13 6 False ''c.jpg'']"
  note claim = previousURLs_bounded
         [of "example_env changing_listing" example_castData 3 ?s3 ?r3 ?s4 ?r4 1 ?s4 ?r4]
  from claim example_after_3 example_mint_inj
  have "set (previousURLs ?s3)
          = createObjectURL (example_env changing_listing) ` {..<3} - set (revoked ?s3)"
    by blast
  then have live:
    "set [''blob:x'', ''blob:xx'']
       = createObjectURL (example_env changing_listing) ` {..<3} - set [''blob:'']"
    by simp
  from claim example_after_3 s4
  have emitted: "nth_result (example_env changing_listing) example_castData 3
                    = Value (createObjectURL (example_env changing_listing) 3, [])"
    by blast
  from claim example_after_3 p4 example_mint_inj
  have "set (revoked ?s3) \<inter> set (previousURLs ?s4) = {}"
    by blast
  then have gone: "set [''blob:''] \<inter> set [''blob:xx'', ''blob:xxx''] = {}"
    by simp
  show ?thesis
  proof (intro conjI)
    show "inj (createObjectURL (example_env changing_listing))" by (rule example_mint_inj)
    show "length [''blob:x'', ''blob:xx''] \<le> (2::nat)" by simp
  qed (rule example_after_3 example_after_4 live emitted gone)+
qed

section \<open>The end of a cycle\<close>

lemma for_loop_nothing_to_show:
  "nothing_to_show env castData (attempts st) files \<Longrightarrow>
   \<exists>a. for_loop env castData st files = Exhausted (st\<lparr>attempts := a\<rparr>)"
proof (induction files arbitrary: st)
  case Nil
  have "for_loop env castData st [] = Exhausted (st\<lparr>attempts := attempts st\<rparr>)" by simp
  then show ?case ..
next
  case (Cons encryptedFile rest)
  from Cons.prems obtain decrypted
    where d: "decryptEnteFile env encryptedFile (collectionKey castData) = Inr decrypted"
    by (cases "decryptEnteFile env encryptedFile (collectionKey castData)") simp_all
  note unfold = for_loop_cases [OF d, of st rest]
  show ?case
  proof (cases "isFileEligibleForCast (nameAndExtension env) (isNonWebImageFileExtension env) decrypted")
    case False
    with Cons.prems d have "nothing_to_show env castData (attempts st) rest" by simp
    from Cons.IH [OF this] obtain a
      where "for_loop env castData st rest = Exhausted (st\<lparr>attempts := a\<rparr>)" ..
    with unfold False
    have "for_loop env castData st (encryptedFile # rest) = Exhausted (st\<lparr>attempts := a\<rparr>)"
      by (simp del: for_loop.simps)
    then show ?thesis ..
  next
    case True
    with Cons.prems d obtain e
      where f: "renderableImageBlob env (castToken castData) decrypted (attempts st) = Inl e"
        and others: "nothing_to_show env castData (Suc (attempts st)) rest"
      by (cases "renderableImageBlob env (castToken castData) decrypted (attempts st)") simp_all
    from f unfold True
    have u: "for_loop env castData st (encryptedFile # rest)
           = for_loop env castData (st\<lparr>attempts := Suc (attempts st)\<rparr>) rest"
      by (simp del: for_loop.simps)
    from others
    have "nothing_to_show env castData (attempts (st\<lparr>attempts := Suc (attempts st)\<rparr>)) rest"
      by simp
    from Cons.IH [OF this] obtain a
      where "for_loop env castData (st\<lparr>attempts := Suc (attempts st)\<rparr>) rest
               = Exhausted (st\<lparr>attempts := Suc (attempts st)\<rparr>\<lparr>attempts := a\<rparr>)" ..
    with u have "for_loop env castData st (encryptedFile # rest) = Exhausted (st\<lparr>attempts := a\<rparr>)"
      by (simp del: for_loop.simps)
    then show ?thesis ..
  qed
qed

lemma for_loop_Exhausted_nothing_to_show:
  "for_loop env castData st files = Exhausted st' \<Longrightarrow>
   nothing_to_show env castData (attempts st) files"
proof (induction files arbitrary: st)
  case Nil
  show ?case by simp
next
  case (Cons encryptedFile rest)
  show ?case
  proof (cases "decryptEnteFile env encryptedFile (collectionKey castData)")
    case (Inl e)
    with Cons.prems show ?thesis by simp
  next
    case (Inr decrypted)
    note d = Inr
    note unfold = for_loop_cases [OF d, of st rest]
    show ?thesis
    proof (cases "isFileEligibleForCast (nameAndExtension env) (isNonWebImageFileExtension env) decrypted")
      case False
      with Cons.prems unfold have "for_loop env castData st rest = Exhausted st'" by simp
      then have "nothing_to_show env castData (attempts st) rest" by (rule Cons.IH)
      with d False show ?thesis by simp
    next
      case True
      show ?thesis
      proof (cases "renderableImageBlob env (castToken castData) decrypted (attempts st)")
        case (Inl e)
        with Cons.prems unfold True
        have "for_loop env castData (st\<lparr>attempts := Suc (attempts st)\<rparr>) rest = Exhausted st'"
          by simp
        then have "nothing_to_show env castData
                     (attempts (st\<lparr>attempts := Suc (attempts st)\<rparr>)) rest"
          by (rule Cons.IH)
        with d True Inl show ?thesis by simp
      next
        case (Inr blob)
        with Cons.prems unfold True
        have "emit (st\<lparr>attempts := Suc (attempts st), created := Suc (created st),
                         urls := urls st @ [createObjectURL env (created st)],
                         haveEligibleFiles := True\<rparr>) rest = Exhausted st'"
          by simp
        then show ?thesis by (simp add: emit_not_Exhausted)
      qed
    qed
  qed
qed

lemma emit_not_Returned: "emit st rest \<noteq> Returned st'"
  by (simp add: emit_def Let_def split: list.splits)

lemma for_loop_not_Returned: "for_loop env castData st files \<noteq> Returned st'"
proof (induction files arbitrary: st)
  case Nil
  show ?case by simp
next
  case (Cons encryptedFile rest)
  show ?case
  proof (cases "decryptEnteFile env encryptedFile (collectionKey castData)")
    case (Inl e)
    then show ?thesis by simp
  next
    case (Inr decrypted)
    show ?thesis
      unfolding for_loop_cases [OF Inr]
      by (simp add: Cons.IH emit_not_Returned split: sum.splits)
  qed
qed

lemma emit_cycles: "cycles (state_of (emit st rest)) = cycles st"
  by (simp add: emit_def Let_def revokeObjectURL_def split: list.splits)

lemma for_loop_cycles: "cycles (state_of (for_loop env castData st files)) = cycles st"
proof (induction files arbitrary: st)
  case Nil
  show ?case by simp
next
  case (Cons encryptedFile rest)
  show ?case
  proof (cases "decryptEnteFile env encryptedFile (collectionKey castData)")
    case (Inl e)
    then show ?thesis by simp
  next
    case (Inr decrypted)
    show ?thesis
      unfolding for_loop_cases [OF Inr]
      by (simp add: Cons.IH emit_cycles split: sum.splits)
  qed
qed

lemma while_true_cycles: "cycles (state_of (while_true env castData st)) = Suc (cycles st)"
proof (cases "listing env (castToken castData) (cycles st)")
  case (Inl e)
  then show ?thesis by (simp add: while_true_once)
next
  case (Inr files)
  let ?st0 = "st\<lparr>cycles := Suc (cycles st), haveEligibleFiles := False\<rparr>"
  have "cycles (state_of (for_loop env castData ?st0 (shuffled env (cycles st) files)))
          = cycles ?st0"
    by (rule for_loop_cycles)
  with Inr show ?thesis
    by (cases "for_loop env castData ?st0 (shuffled env (cycles st) files)")
       (simp_all add: while_true_once)
qed

lemma while_true_nothing_to_show:
  assumes "listing env (castToken castData) (cycles st) = Inr files"
    and "nothing_to_show env castData (attempts st) (shuffled env (cycles st) files)"
  shows "\<exists>a. while_true env castData st
            = Returned (st\<lparr>cycles := Suc (cycles st), haveEligibleFiles := False,
                            attempts := a\<rparr>)"
proof -
  let ?st0 = "st\<lparr>cycles := Suc (cycles st), haveEligibleFiles := False\<rparr>"
  from assms(2) have "nothing_to_show env castData (attempts ?st0)
                        (shuffled env (cycles st) files)" by simp
  from for_loop_nothing_to_show [OF this] obtain a
    where "for_loop env castData ?st0 (shuffled env (cycles st) files)
             = Exhausted (?st0\<lparr>attempts := a\<rparr>)" ..
  with assms(1) have "while_true env castData st = Returned (?st0\<lparr>attempts := a\<rparr>)"
    by (simp add: while_true_once)
  then show ?thesis ..
qed

lemma while_true_Returned:
  assumes "while_true env castData st = Returned st'"
  shows "\<exists>files. listing env (castToken castData) (cycles st) = Inr files
           \<and> nothing_to_show env castData (attempts st) (shuffled env (cycles st) files)"
proof (cases "listing env (castToken castData) (cycles st)")
  case (Inl e)
  with assms show ?thesis by (simp add: while_true_once)
next
  case (Inr files)
  let ?st0 = "st\<lparr>cycles := Suc (cycles st), haveEligibleFiles := False\<rparr>"
  from assms Inr
  have "for_loop env castData ?st0 (shuffled env (cycles st) files) = Exhausted st'"
    by (cases "for_loop env castData ?st0 (shuffled env (cycles st) files)")
       (simp_all add: while_true_once for_loop_not_Returned)
  then have "nothing_to_show env castData (attempts ?st0) (shuffled env (cycles st) files)"
    by (rule for_loop_Exhausted_nothing_to_show)
  with Inr show ?thesis by simp
qed

lemma completed_stays:
  "after_calls env castData n = Completed st \<Longrightarrow>
   after_calls env castData (n + k) = Completed st"
  by (induction k) simp_all

text \<open>
  The end of a cycle when every file visited decrypts. A pass gives nothing to show
  when each of its files decrypts and is then rejected by the filter or cannot be
  made renderable at the attempt made for it. When the pass over the listing of a
  cycle gives nothing to show, the \<^verbatim>\<open>while\<close> loop fetches that one listing, passes
  over it and returns: no URL is created and no other listing is fetched; and the
  loop returns in no other way. From the start this makes the first call of
  \<^verbatim>\<open>next()\<close> give done, after one listing. Once the generator has completed, every
  later call gives done and changes nothing. When the generator is suspended at a
  yield and the files left in the cycle give nothing to show, the next call begins a
  new cycle: it goes to the top of the \<^verbatim>\<open>while\<close> loop and fetches exactly one more
  listing.
\<close>

lemma cycle_end:
  "(listing env (castToken castData) (cycles st) = Inr files
      \<and> nothing_to_show env castData (attempts st) (shuffled env (cycles st) files)
     \<longrightarrow> (\<exists>a. while_true env castData st
                = Returned (st\<lparr>cycles := Suc (cycles st), haveEligibleFiles := False,
                                attempts := a\<rparr>)))
   \<and> (while_true env castData st = Returned st'
     \<longrightarrow> (\<exists>files. listing env (castToken castData) (cycles st) = Inr files
            \<and> nothing_to_show env castData (attempts st) (shuffled env (cycles st) files)))
   \<and> (listing env (castToken castData) 0 = Inr files
      \<and> nothing_to_show env castData 0 (shuffled env 0 files)
     \<longrightarrow> nth_result env castData 0 = Done
         \<and> (\<exists>a. after_calls env castData (Suc 0)
                  = Completed (initial\<lparr>cycles := Suc 0, attempts := a\<rparr>)))
   \<and> (after_calls env castData n = Completed st
     \<longrightarrow> after_calls env castData (n + k) = Completed st
         \<and> nth_result env castData (n + k) = Done)
   \<and> (after_calls env castData n = SuspendedYield st rest
      \<and> nothing_to_show env castData (attempts st) rest
     \<longrightarrow> (\<exists>a. resume env castData st rest = while_true env castData (st\<lparr>attempts := a\<rparr>))
         \<and> cycles (state_of (resume env castData st rest)) = Suc (cycles st))"
proof (intro conjI impI)
  assume "listing env (castToken castData) (cycles st) = Inr files
      \<and> nothing_to_show env castData (attempts st) (shuffled env (cycles st) files)"
  then show "\<exists>a. while_true env castData st
                = Returned (st\<lparr>cycles := Suc (cycles st), haveEligibleFiles := False,
                                attempts := a\<rparr>)"
    using while_true_nothing_to_show by blast
next
  assume "while_true env castData st = Returned st'"
  then show "\<exists>files. listing env (castToken castData) (cycles st) = Inr files
            \<and> nothing_to_show env castData (attempts st) (shuffled env (cycles st) files)"
    by (rule while_true_Returned)
next
  assume a: "listing env (castToken castData) 0 = Inr files
      \<and> nothing_to_show env castData 0 (shuffled env 0 files)"
  have "\<exists>a. while_true env castData initial
          = Returned (initial\<lparr>cycles := Suc (cycles initial), haveEligibleFiles := False,
                              attempts := a\<rparr>)"
    by (rule while_true_nothing_to_show [of env castData initial files])
       (use a in \<open>simp_all add: initial_def\<close>)
  then obtain a where r: "while_true env castData initial
          = Returned (initial\<lparr>cycles := Suc 0, attempts := a\<rparr>)"
    by (auto simp: initial_def)
  then show "nth_result env castData 0 = Done" by (simp add: nth_result_def)
  from r have "after_calls env castData (Suc 0)
                 = Completed (initial\<lparr>cycles := Suc 0, attempts := a\<rparr>)" by simp
  then show "\<exists>a. after_calls env castData (Suc 0)
                  = Completed (initial\<lparr>cycles := Suc 0, attempts := a\<rparr>)" ..
next
  assume a: "after_calls env castData n = Completed st"
  then show c: "after_calls env castData (n + k) = Completed st" by (rule completed_stays)
  then show "nth_result env castData (n + k) = Done" by (simp add: nth_result_def)
next
  assume a: "after_calls env castData n = SuspendedYield st rest
      \<and> nothing_to_show env castData (attempts st) rest"
  then have flag: "haveEligibleFiles st" using after_calls_tracked by blast
  from a for_loop_nothing_to_show [of env castData st rest] obtain b
    where e: "for_loop env castData st rest = Exhausted (st\<lparr>attempts := b\<rparr>)" by blast
  with flag have r: "resume env castData st rest = while_true env castData (st\<lparr>attempts := b\<rparr>)"
    by (simp add: resume_def)
  then show "\<exists>a. resume env castData st rest = while_true env castData (st\<lparr>attempts := a\<rparr>)" ..
  from r show "cycles (state_of (resume env castData st rest)) = Suc (cycles st)"
    by (simp add: while_true_cycles)
qed

lemma example_nothing_to_show:
  "nothing_to_show (example_env l) example_castData a
     [example_file 12 5 False ''clip.mp4'', example_file 13 6 False ''c.jpg'']"
  by (simp add: example_decrypt)
     (simp add: isFileEligibleForCast_def renderableImageBlob_def downloadFile_def
        isImageOrLivePhoto_def example_env_def)

lemma example_after_5:
  "after_calls (example_env changing_listing) example_castData 5
     = Completed
          \<lparr>previousURLs = [''blob:xx'', ''blob:xxx''], urls = [], haveEligibleFiles = False,
           cycles = 3, attempts = 7, created = 4, revoked = [''blob:'', ''blob:x'']\<rparr>"
proof -
  have "after_calls (example_env changing_listing) example_castData 5
        = snd (renderableImageURLs_next (example_env changing_listing) example_castData
                 (after_calls (example_env changing_listing) example_castData 4))"
    by (simp add: eval_nat_numeral del: renderableImageURLs_next.simps)
  then show ?thesis unfolding example_after_4 example_call_4 snd_conv .
qed

text \<open>
  Three runs. A collection of a video and an image that cannot be fetched: the first
  call gives done after one listing. The changing collection: the fifth call
  completes the generator and the sixth finds it so; and the call after the second
  yield, with only the video and the unfetched image left in the cycle, starts the
  second cycle.
\<close>

lemma cycle_end_example:
  "listing (example_env barren_listing) (castToken example_castData) 0
     = Inr [example_file 12 5 False ''clip.mp4'', example_file 13 6 False ''c.jpg'']
   \<and> nothing_to_show (example_env barren_listing) example_castData 0
         [example_file 12 5 False ''clip.mp4'', example_file 13 6 False ''c.jpg'']
   \<and> (\<exists>a. while_true (example_env barren_listing) example_castData initial
            = Returned (initial\<lparr>cycles := Suc 0, haveEligibleFiles := False, attempts := a\<rparr>))
   \<and> nth_result (example_env barren_listing) example_castData 0 = Done
   \<and> (\<exists>a. after_calls (example_env barren_listing) example_castData (Suc 0)
            = Completed (initial\<lparr>cycles := Suc 0, attempts := a\<rparr>))
   \<and> after_calls (example_env changing_listing) example_castData 5
       = Completed
          \<lparr>previousURLs = [''blob:xx'', ''blob:xxx''], urls = [], haveEligibleFiles = False,
           cycles = 3, attempts = 7, created = 4, revoked = [''blob:'', ''blob:x'']\<rparr>
   \<and> after_calls (example_env changing_listing) example_castData (5 + 1)
       = Completed
          \<lparr>previousURLs = [''blob:xx'', ''blob:xxx''], urls = [], haveEligibleFiles = False,
           cycles = 3, attempts = 7, created = 4, revoked = [''blob:'', ''blob:x'']\<rparr>
   \<and> nth_result (example_env changing_listing) example_castData (5 + 1) = Done
   \<and> after_calls (example_env changing_listing) example_castData 2
       = SuspendedYield
          \<lparr>previousURLs = [''blob:'', ''blob:x''], urls = [], haveEligibleFiles = True,
           cycles = 1, attempts = 2, created = 2, revoked = []\<rparr>
          [example_file 12 5 False ''clip.mp4'', example_file 13 6 False ''c.jpg'']
   \<and> cycles (state_of (resume (example_env changing_listing) example_castData
          \<lparr>previousURLs = [''blob:'', ''blob:x''], urls = [], haveEligibleFiles = True,
           cycles = 1, attempts = 2, created = 2, revoked = []\<rparr>
          [example_file 12 5 False ''clip.mp4'', example_file 13 6 False ''c.jpg''])) = 2"
proof -
  let ?barren = "[example_file 12 5 False ''clip.mp4'', example_file 13 6 False ''c.jpg'']"
  let ?s2 = "\<lparr>previousURLs = [''blob:'', ''blob:x''], urls = [], haveEligibleFiles = True,
           cycles = 1, attempts = 2, created = 2, revoked = []\<rparr>"
  let ?s5 = "\<lparr>previousURLs = [''blob:xx'', ''blob:xxx''], urls = [], haveEligibleFiles = False,
           cycles = 3, attempts = 7, created = 4, revoked = [''blob:'', ''blob:x'']\<rparr>"
  have listed: "listing (example_env barren_listing) (castToken example_castData) 0 = Inr ?barren"
    by (simp add: example_listed barren_listing_def)
  have listed': "listing (example_env barren_listing) (castToken example_castData)
                   (cycles initial) = Inr ?barren"
    by (simp add: example_listed barren_listing_def)
  have all: "nothing_to_show (example_env barren_listing) example_castData a
               (shuffled (example_env barren_listing) c ?barren)" for a c
    unfolding example_not_shuffled by (rule example_nothing_to_show)
  have rest: "nothing_to_show (example_env changing_listing) example_castData (attempts ?s2)
                ?barren"
    by (rule example_nothing_to_show)
  note from_start = cycle_end
      [of "example_env barren_listing" example_castData initial ?barren _ 0 0]
  note completed = cycle_end
      [of "example_env changing_listing" example_castData ?s5 ?barren _ 5 1]
  note suspended = cycle_end
      [of "example_env changing_listing" example_castData ?s2 ?barren _ 2 0 ?barren]
  from from_start listed' all [of "attempts initial" "cycles initial"]
  have "\<exists>a. while_true (example_env barren_listing) example_castData initial
            = Returned (initial\<lparr>cycles := Suc (cycles initial), haveEligibleFiles := False,
                                attempts := a\<rparr>)"
    by blast
  then have one_pass: "\<exists>a. while_true (example_env barren_listing) example_castData initial
            = Returned (initial\<lparr>cycles := Suc 0, haveEligibleFiles := False, attempts := a\<rparr>)"
    by (simp add: initial_def)
  from from_start listed all [of 0 0]
  have ended: "nth_result (example_env barren_listing) example_castData 0 = Done"
    and over: "\<exists>a. after_calls (example_env barren_listing) example_castData (Suc 0)
            = Completed (initial\<lparr>cycles := Suc 0, attempts := a\<rparr>)"
    by blast+
  from completed example_after_5
  have stays: "after_calls (example_env changing_listing) example_castData (5 + 1) = Completed ?s5"
    and still_done: "nth_result (example_env changing_listing) example_castData (5 + 1) = Done"
    by blast+
  from suspended example_after_2 rest
  have "cycles (state_of (resume (example_env changing_listing) example_castData ?s2 ?barren))
          = Suc (cycles ?s2)"
    by blast
  then have again: "cycles (state_of (resume (example_env changing_listing) example_castData
                       ?s2 ?barren)) = 2"
    by simp
  show ?thesis
    by (intro conjI)
       (rule listed example_nothing_to_show one_pass ended
          over example_after_5 stays still_done example_after_2 again)+
qed

text \<open>
  A pass emptied by a failure that does not last. The collection holds one image and
  the network is down for the first download only: the image would render at the
  second attempt, yet the pass holds nothing to show, so the first call of
  \<^verbatim>\<open>next()\<close> gives done and so does the second.
\<close>

lemma offline_at_first_decrypt:
  "decryptEnteFile offline_at_first (example_file 11 3 False ''a.jpg'')
       (collectionKey example_castData)
     = Inr \<lparr>fileID = 11, fileSize = 1000, fileDecryptionHeader = ''header'',
            isDeleted = False, updationTime = 3, key = ''key'',
            metadata = \<lparr>title = ''a.jpg'', fileType = IMAGE, creationTime = 0\<rparr>,
            pubMagicMetadata = None\<rparr>"
  by (simp add: decryptEnteFile_def offline_at_first_def example_env_def example_file_def
        decryptMagic_def applyEdits_def example_castData_def)

lemma offline_at_first_ends:
  "nothing_to_show offline_at_first example_castData 0 [example_file 11 3 False ''a.jpg'']
   \<and> renderableImageBlob offline_at_first (castToken example_castData)
         \<lparr>fileID = 11, fileSize = 1000, fileDecryptionHeader = ''header'',
          isDeleted = False, updationTime = 3, key = ''key'',
          metadata = \<lparr>title = ''a.jpg'', fileType = IMAGE, creationTime = 0\<rparr>,
          pubMagicMetadata = None\<rparr> (Suc 0)
       = Inr (''bytes'', ''image/jpeg'')
   \<and> nth_result offline_at_first example_castData 0 = Done
   \<and> nth_result offline_at_first example_castData (0 + 1) = Done"
proof -
  let ?files = "[example_file 11 3 False ''a.jpg'']"
  have listed: "listing offline_at_first (castToken example_castData) 0 = Inr ?files"
    by (simp add: offline_at_first_def example_env_def)
  have same: "shuffled offline_at_first 0 ?files = ?files"
    by (simp add: offline_at_first_def example_env_def)
  have shown: "nothing_to_show offline_at_first example_castData 0 ?files"
    by (simp add: offline_at_first_decrypt)
       (simp add: isFileEligibleForCast_def renderableImageBlob_def downloadFile_def
          isImageOrLivePhoto_def offline_at_first_def example_env_def MiB_def)
  have later: "renderableImageBlob offline_at_first (castToken example_castData)
         \<lparr>fileID = 11, fileSize = 1000, fileDecryptionHeader = ''header'',
          isDeleted = False, updationTime = 3, key = ''key'',
          metadata = \<lparr>title = ''a.jpg'', fileType = IMAGE, creationTime = 0\<rparr>,
          pubMagicMetadata = None\<rparr> (Suc 0)
       = Inr (''bytes'', ''image/jpeg'')"
    by (simp add: renderableImageBlob_def downloadFile_def isImageOrLivePhoto_def
          offline_at_first_def example_env_def)
  have shown': "nothing_to_show offline_at_first example_castData 0
                    (shuffled offline_at_first 0 ?files)"
    using shown by (simp only: same)
  from cycle_end [of offline_at_first example_castData initial ?files initial 0 0 "[]"]
    listed shown'
  have ended: "nth_result offline_at_first example_castData 0 = Done"
    and completed: "\<exists>a. after_calls offline_at_first example_castData (Suc 0)
            = Completed (initial\<lparr>cycles := Suc 0, attempts := a\<rparr>)"
    by blast+
  from completed obtain a where "after_calls offline_at_first example_castData (Suc 0)
            = Completed (initial\<lparr>cycles := Suc 0, attempts := a\<rparr>)" ..
  with cycle_end [of offline_at_first example_castData _ _ _ "Suc 0" 0]
  have "nth_result offline_at_first example_castData (Suc 0 + 0) = Done" by blast
  then have again: "nth_result offline_at_first example_castData (0 + 1) = Done" by simp
  from shown later ended again show ?thesis by (intro conjI)
qed

section \<open>A file that does not decrypt\<close>

lemma undecryptable_call_0:
  "renderableImageURLs_next (example_env undecryptable_listing) example_castData SuspendedStart
     = (Value (''blob:'', []),
        SuspendedYield
          \<lparr>previousURLs = [''blob:''], urls = [], haveEligibleFiles = True,
           cycles = 1, attempts = 1, created = 1, revoked = []\<rparr>
          [(example_file 15 8 False ''e.jpg'')\<lparr>encryptedKey := ''bad''\<rparr>,
           example_file 14 7 False ''d.jpg''])"
  by (simp add: while_true_once initial_def example_listed example_not_shuffled
        undecryptable_listing_def example_image_emitted emit_def del: for_loop.simps(2))

lemma undecryptable_call_1:
  "renderableImageURLs_next (example_env undecryptable_listing) example_castData
     (SuspendedYield
          \<lparr>previousURLs = [''blob:''], urls = [], haveEligibleFiles = True,
           cycles = 1, attempts = 1, created = 1, revoked = []\<rparr>
          [(example_file 15 8 False ''e.jpg'')\<lparr>encryptedKey := ''bad''\<rparr>,
           example_file 14 7 False ''d.jpg''])
     = (Rejected (Error ''decryption failed''),
        Completed
          \<lparr>previousURLs = [''blob:''], urls = [], haveEligibleFiles = True,
           cycles = 1, attempts = 1, created = 1, revoked = []\<rparr>)"
  by (simp add: resume_def for_loop_decrypt_fails [OF example_bad_key] del: for_loop.simps(2))

text \<open>
  Claim C5 does not hold of the code. The collection holds an image, then a file
  whose key does not decrypt, then another image. The first call of \<^verbatim>\<open>next()\<close>
  yields the first image. The second call reaches the file that does not decrypt:
  the exception of \<open>decryptEnteFile\<close> leaves the generator, the call is rejected with
  it, and the generator is completed, so the third call gives done and the other
  image is never shown.
\<close>

theorem decrypt_failure_ends_the_slideshow:
  "nth_result (example_env undecryptable_listing) example_castData 0 = Value (''blob:'', [])
   \<and> nth_result (example_env undecryptable_listing) example_castData 1
       = Rejected (Error ''decryption failed'')
   \<and> nth_result (example_env undecryptable_listing) example_castData 2 = Done"
proof -
  let ?env = "example_env undecryptable_listing"
  let ?s1 = "\<lparr>previousURLs = [''blob:''], urls = [], haveEligibleFiles = True,
           cycles = 1, attempts = 1, created = 1, revoked = []\<rparr>"
  let ?r1 = "[(example_file 15 8 False ''e.jpg'')\<lparr>encryptedKey := ''bad''\<rparr>,
           example_file 14 7 False ''d.jpg'']"
  have a0: "after_calls ?env example_castData 0 = SuspendedStart" by simp
  have "after_calls ?env example_castData 1
          = snd (renderableImageURLs_next ?env example_castData SuspendedStart)"
    by (simp del: renderableImageURLs_next.simps)
  then have a1: "after_calls ?env example_castData 1 = SuspendedYield ?s1 ?r1"
    unfolding undecryptable_call_0 snd_conv .
  have "after_calls ?env example_castData 2
          = snd (renderableImageURLs_next ?env example_castData
                   (after_calls ?env example_castData 1))"
    by (simp add: eval_nat_numeral del: renderableImageURLs_next.simps)
  then have a2: "after_calls ?env example_castData 2 = Completed ?s1"
    unfolding a1 undecryptable_call_1 snd_conv .
  have "nth_result ?env example_castData 0 = Value (''blob:'', [])"
    unfolding nth_result_def a0 undecryptable_call_0 fst_conv ..
  moreover have "nth_result ?env example_castData 1 = Rejected (Error ''decryption failed'')"
    unfolding nth_result_def a1 undecryptable_call_1 fst_conv ..
  moreover have "nth_result ?env example_castData 2 = Done"
    unfolding nth_result_def a2 by simp
  ultimately show ?thesis by simp
qed

section \<open>Nothing to show, and a file that does not decrypt\<close>

lemma unrenderable_call_0:
  "renderableImageURLs_next (example_env unrenderable_listing) example_castData SuspendedStart
     = (Rejected (Error ''decryption failed''),
        Completed
          \<lparr>previousURLs = [], urls = [], haveEligibleFiles = False,
           cycles = 1, attempts = 0, created = 0, revoked = []\<rparr>)"
  by (simp add: while_true_once initial_def example_listed example_not_shuffled
        unrenderable_listing_def example_video_skipped for_loop_decrypt_fails [OF example_bad_key]
        del: for_loop.simps(2))

text \<open>
  Claim C9 does not hold of the code. The collection holds a video and a file whose
  key does not decrypt, so its one cycle has no file to show: the filter rejects the
  video, and the other record never becomes a file. The sequence should end there
  with done. Instead the first call of \<^verbatim>\<open>next()\<close> is rejected with the exception
  of \<open>decryptEnteFile\<close>, after one listing, no download and no URL; only the call
  after it gives done.
\<close>

theorem nothing_to_show_yet_rejected:
  "nth_result (example_env unrenderable_listing) example_castData 0
     = Rejected (Error ''decryption failed'')
   \<and> after_calls (example_env unrenderable_listing) example_castData 1
       = Completed
          \<lparr>previousURLs = [], urls = [], haveEligibleFiles = False,
           cycles = 1, attempts = 0, created = 0, revoked = []\<rparr>
   \<and> nth_result (example_env unrenderable_listing) example_castData 1 = Done"
proof -
  let ?env = "example_env unrenderable_listing"
  let ?s1 = "\<lparr>previousURLs = [], urls = [], haveEligibleFiles = False,
           cycles = 1, attempts = 0, created = 0, revoked = []\<rparr>"
  have a0: "after_calls ?env example_castData 0 = SuspendedStart" by simp
  have "after_calls ?env example_castData 1
          = snd (renderableImageURLs_next ?env example_castData SuspendedStart)"
    by (simp del: renderableImageURLs_next.simps)
  then have a1: "after_calls ?env example_castData 1 = Completed ?s1"
    unfolding unrenderable_call_0 snd_conv .
  have "nth_result ?env example_castData 0 = Rejected (Error ''decryption failed'')"
    unfolding nth_result_def a0 unrenderable_call_0 fst_conv ..
  moreover have "nth_result ?env example_castData 1 = Done"
    unfolding nth_result_def a1 by simp
  ultimately show ?thesis using a1 by simp
qed

end
